(* ===== verification/Prelude.thy ===== *)
theory Prelude
  imports Main "HOL-Library.Multiset"
begin

text \<open>
  Shared foundations of the development.

  \<^item> Go's result conventions: an \<open>error\<close> value, and an \<open>outcome\<close> that is a value, an error
    or a run-time panic.
  \<^item> Programs as explicit state passing. A program takes a state and returns an outcome and
    the new state; the state holds the world outside the controller (an arbitrary type) and
    the list of mutating API calls issued so far. The state is kept when a program fails:
    what was written before an early return stays written.
  \<^item> The predicate \<open>does P Q m\<close>: whatever the state, every API call that \<open>m\<close> issues satisfies
    \<open>P\<close> and every value it returns satisfies \<open>Q\<close>. Its composition rules are collected in
    \<open>does_rules\<close> and carry the safety proofs of all components.
  \<^item> The predicate \<open>under V Q m\<close>: the program keeps the property \<open>V\<close> of the world and its values
    satisfy \<open>Q\<close>, with the rules in \<open>under_rules\<close>.
  \<^item> Generic lemmas on lists.
\<close>

named_theorems does_rules
named_theorems run_simps
named_theorems under_rules

section \<open>Errors and outcomes\<close>

text \<open>
  The error values of the program: an error of the API client (with its message), a plain
  error (\<open>errors.New\<close> and \<open>fmt.Errorf\<close> without an error argument), an error that wraps another
  one (\<open>fmt.Errorf\<close> with an error argument), and two errors whose text carries numbers.
\<close>

datatype error =
    ApiErr string
  | Msg string
  | Wrap string error
  | MaxRetriesReached nat "string option"
  | ExceedsMaxLimit int int

datatype 'a outcome = Ok 'a | Fail error | Panic string

fun outcome_bind :: "'a outcome \<Rightarrow> ('a \<Rightarrow> 'b outcome) \<Rightarrow> 'b outcome" where
  "outcome_bind (Ok x) f = f x"
| "outcome_bind (Fail e) f = Fail e"
| "outcome_bind (Panic p) f = Panic p"

fun outcome_wrap :: "string \<Rightarrow> 'a outcome \<Rightarrow> 'a outcome" where
  "outcome_wrap msg (Ok x) = Ok x"
| "outcome_wrap msg (Fail e) = Fail (Wrap msg e)"
| "outcome_wrap msg (Panic p) = Panic p"

text \<open>A loop over a slice that returns at the first error and collects the results.\<close>

fun mapO :: "('a \<Rightarrow> 'b outcome) \<Rightarrow> 'a list \<Rightarrow> 'b list outcome" where
  "mapO f [] = Ok []"
| "mapO f (x # xs) = outcome_bind (f x) (\<lambda>y. outcome_bind (mapO f xs) (\<lambda>ys. Ok (y # ys)))"

lemma outcome_bind_Ok [simp]:
  "outcome_bind m f = Ok y \<longleftrightarrow> (\<exists>x. m = Ok x \<and> f x = Ok y)"
  by (cases m) auto

lemma outcome_wrap_Ok [simp]: "outcome_wrap msg m = Ok y \<longleftrightarrow> m = Ok y"
  by (cases m) auto

lemma outcome_bind_Panic [simp]:
  "outcome_bind m f = Panic p \<longleftrightarrow> m = Panic p \<or> (\<exists>x. m = Ok x \<and> f x = Panic p)"
  by (cases m) auto

lemma outcome_wrap_Panic [simp]: "outcome_wrap msg m = Panic p \<longleftrightarrow> m = Panic p"
  by (cases m) auto

lemma mapO_Ok: "mapO f xs = Ok ys \<longleftrightarrow> list_all2 (\<lambda>x y. f x = Ok y) xs ys"
  by (induction xs arbitrary: ys) (auto simp: list_all2_Cons1)

section \<open>Programs\<close>

record ('w, 'c) st =
  wld :: 'w
  calls :: "('c \<times> bool) list"

type_synonym ('w, 'c, 'a) prog = "('w, 'c) st \<Rightarrow> 'a outcome \<times> ('w, 'c) st"

definition ret :: "'a \<Rightarrow> ('w, 'c, 'a) prog" where
  "ret x s = (Ok x, s)"

definition raise :: "error \<Rightarrow> ('w, 'c, 'a) prog" where
  "raise e s = (Fail e, s)"

definition lift :: "'a outcome \<Rightarrow> ('w, 'c, 'a) prog" where
  "lift r s = (r, s)"

definition andThen :: "('w, 'c, 'a) prog \<Rightarrow> ('a \<Rightarrow> ('w, 'c, 'b) prog) \<Rightarrow> ('w, 'c, 'b) prog" where
  "andThen m f s =
     (case m s of
        (Ok x, t) \<Rightarrow> f x t
      | (Fail e, t) \<Rightarrow> (Fail e, t)
      | (Panic p, t) \<Rightarrow> (Panic p, t))"

text \<open>\<open>if err != nil { return fmt.Errorf("msg: %v", err) }\<close>\<close>

definition wrapErr :: "string \<Rightarrow> ('w, 'c, 'a) prog \<Rightarrow> ('w, 'c, 'a) prog" where
  "wrapErr msg m s = (case m s of (r, t) \<Rightarrow> (outcome_wrap msg r, t))"

text \<open>A read of the outside world, which may fail, and a mutating call, which is recorded.\<close>

definition readOp :: "('w \<Rightarrow> (string + 'a) \<times> 'w) \<Rightarrow> ('w, 'c, 'a) prog" where
  "readOp f s =
     (case f (wld s) of
        (Inl e, w) \<Rightarrow> (Fail (ApiErr e), s\<lparr>wld := w\<rparr>)
      | (Inr x, w) \<Rightarrow> (Ok x, s\<lparr>wld := w\<rparr>))"

definition peekOp :: "('w \<Rightarrow> 'a \<times> 'w) \<Rightarrow> ('w, 'c, 'a) prog" where
  "peekOp f s = (case f (wld s) of (x, w) \<Rightarrow> (Ok x, s\<lparr>wld := w\<rparr>))"

definition writeOp :: "('c \<Rightarrow> 'w \<Rightarrow> string option \<times> 'w) \<Rightarrow> 'c \<Rightarrow> ('w, 'c, string option) prog" where
  "writeOp f c s =
     (case f c (wld s) of
        (r, w) \<Rightarrow> (Ok r, s\<lparr>wld := w, calls := calls s @ [(c, r = None)]\<rparr>))"

text \<open>A \<open>for range\<close> loop that threads an accumulator and stops at the first error.\<close>

fun foldM :: "('acc \<Rightarrow> 'x \<Rightarrow> ('w, 'c, 'acc) prog) \<Rightarrow> 'acc \<Rightarrow> 'x list \<Rightarrow> ('w, 'c, 'acc) prog" where
  "foldM f a [] = ret a"
| "foldM f a (x # xs) = andThen (f a x) (\<lambda>b. foldM f b xs)"

section \<open>Running programs\<close>

lemma ret_run [run_simps]: "ret x s = (Ok x, s)"
  by (simp add: ret_def)

lemma raise_run [run_simps]: "raise e s = (Fail e, s)"
  by (simp add: raise_def)

lemma lift_run [run_simps]: "lift r s = (r, s)"
  by (simp add: lift_def)

lemma andThen_ret [simp]: "andThen (ret x) f = f x"
  by (simp add: andThen_def ret_def fun_eq_iff)

lemma andThen_run [run_simps]:
  "m s = (Ok x, t) \<Longrightarrow> andThen m f s = f x t"
  "m s = (Fail e, t) \<Longrightarrow> andThen m f s = (Fail e, t)"
  "m s = (Panic p, t) \<Longrightarrow> andThen m f s = (Panic p, t)"
  by (simp_all add: andThen_def)

lemma wrapErr_run [run_simps]:
  "m s = (Ok x, t) \<Longrightarrow> wrapErr msg m s = (Ok x, t)"
  "m s = (Fail e, t) \<Longrightarrow> wrapErr msg m s = (Fail (Wrap msg e), t)"
  "m s = (Panic p, t) \<Longrightarrow> wrapErr msg m s = (Panic p, t)"
  by (simp_all add: wrapErr_def)

lemma andThen_Ok:
  "andThen m f s = (Ok y, u) \<longleftrightarrow> (\<exists>x t. m s = (Ok x, t) \<and> f x t = (Ok y, u))"
  by (cases "m s"; cases "fst (m s)") (auto simp: andThen_def split: outcome.splits)

lemma wrapErr_Ok [simp]: "wrapErr msg m s = (Ok y, u) \<longleftrightarrow> m s = (Ok y, u)"
  by (cases "m s"; cases "fst (m s)") (auto simp: wrapErr_def)

lemma foldM_append:
  "foldM f a (xs @ ys) s = andThen (foldM f a xs) (\<lambda>b. foldM f b ys) s"
  by (induction xs arbitrary: a s) (auto simp: andThen_def split: prod.splits outcome.splits)

text \<open>A loop whose every step is a pure function of the accumulator is a fold.\<close>

lemma foldM_pure:
  assumes "\<And>a x. x \<in> set xs \<Longrightarrow> f a x s = (Ok (g a x), s)"
  shows "foldM f a xs s = (Ok (foldl g a xs), s)"
  using assms by (induction xs arbitrary: a) (auto simp: run_simps)

section \<open>What a program issues and returns\<close>

definition does :: "('c \<times> bool \<Rightarrow> bool) \<Rightarrow> ('a \<Rightarrow> bool) \<Rightarrow> ('w, 'c, 'a) prog \<Rightarrow> bool" where
  "does P Q m \<longleftrightarrow>
     (\<forall>s. (\<exists>new. calls (snd (m s)) = calls s @ new \<and> list_all P new) \<and>
          (\<forall>x. fst (m s) = Ok x \<longrightarrow> Q x))"

abbreviation emits :: "('c \<times> bool \<Rightarrow> bool) \<Rightarrow> ('w, 'c, 'a) prog \<Rightarrow> bool" where
  "emits P m \<equiv> does P (\<lambda>_. True) m"

abbreviation silent :: "('w, 'c, 'a) prog \<Rightarrow> bool" where
  "silent m \<equiv> emits (\<lambda>_. False) m"

lemma doesI:
  assumes "\<And>s. \<exists>new. calls (snd (m s)) = calls s @ new \<and> list_all P new"
    and "\<And>s x. fst (m s) = Ok x \<Longrightarrow> Q x"
  shows "does P Q m"
  using assms by (auto simp: does_def)

lemma doesD_calls:
  "does P Q m \<Longrightarrow> m s = (r, t) \<Longrightarrow> \<exists>new. calls t = calls s @ new \<and> list_all P new"
  unfolding does_def by (metis snd_conv)

lemma doesD_value: "does P Q m \<Longrightarrow> m s = (Ok x, t) \<Longrightarrow> Q x"
  unfolding does_def by (metis fst_conv)

lemma does_weaken:
  "does P Q m \<Longrightarrow> (\<And>c. P c \<Longrightarrow> P' c) \<Longrightarrow> (\<And>x. Q x \<Longrightarrow> Q' x) \<Longrightarrow> does P' Q' m"
  unfolding does_def by (meson list.pred_mono_strong)

lemma does_True [intro]: "does P Q m \<Longrightarrow> emits P m"
  by (simp add: does_def)

lemma silent_calls: "does (\<lambda>_. False) Q m \<Longrightarrow> m s = (r, t) \<Longrightarrow> calls t = calls s"
  by (drule (1) doesD_calls, elim exE, case_tac new) simp_all

lemma silent_does: "does (\<lambda>_. False) Q m \<Longrightarrow> does P Q m"
  by (erule does_weaken) auto

lemma does_ret [does_rules]: "Q x \<Longrightarrow> does P Q (ret x)"
  by (simp add: does_def ret_def)

lemma does_raise [does_rules]: "does P Q (raise e)"
  by (simp add: does_def raise_def)

lemma does_lift [does_rules]: "(\<And>x. r = Ok x \<Longrightarrow> Q x) \<Longrightarrow> does P Q (lift r)"
  by (simp add: does_def lift_def)

lemma does_andThen:
  assumes m: "does P R m" and f: "\<And>x. R x \<Longrightarrow> does P Q (f x)"
  shows "does P Q (andThen m f)"
proof -
  have "(\<exists>new. calls (snd (andThen m f s)) = calls s @ new \<and> list_all P new) \<and>
        (\<forall>y. fst (andThen m f s) = Ok y \<longrightarrow> Q y)" for s
  proof (cases "m s")
    case (Pair r t)
    from doesD_calls [OF m Pair] obtain new1
      where new1: "calls t = calls s @ new1" "list_all P new1" by blast
    show ?thesis
    proof (cases r)
      case (Ok x)
      with Pair have fx: "does P Q (f x)" by (intro f doesD_value [OF m]) simp
      obtain new2 where "calls (snd (f x t)) = calls t @ new2" "list_all P new2"
        using doesD_calls [OF fx] by (metis prod.collapse)
      moreover have "\<forall>y. fst (f x t) = Ok y \<longrightarrow> Q y"
        using fx by (auto simp: does_def)
      ultimately show ?thesis using Pair Ok new1 by (simp add: andThen_def)
    qed (use Pair new1 in \<open>simp_all add: andThen_def\<close>)
  qed
  then show ?thesis by (auto simp: does_def)
qed

lemma does_seq [does_rules]:
  "emits P m \<Longrightarrow> (\<And>x. does P Q (f x)) \<Longrightarrow> does P Q (andThen m f)"
  by (rule does_andThen)

lemma does_wrapErr [does_rules]: "does P Q m \<Longrightarrow> does P Q (wrapErr msg m)"
  unfolding does_def wrapErr_def by (simp add: split_beta)

lemma does_readOp [does_rules]: "emits P (readOp f)"
  by (rule doesI) (auto simp: readOp_def split: prod.splits sum.splits)

lemma does_peekOp [does_rules]: "emits P (peekOp f)"
  by (rule doesI) (auto simp: peekOp_def split: prod.splits)

lemma does_writeOp [does_rules]: "P (c, True) \<Longrightarrow> P (c, False) \<Longrightarrow> emits P (writeOp f c)"
  by (simp add: does_def writeOp_def split_beta) (metis (full_types))

lemma does_if [does_rules]:
  "(b \<Longrightarrow> does P Q m) \<Longrightarrow> (\<not> b \<Longrightarrow> does P Q n) \<Longrightarrow> does P Q (if b then m else n)"
  by simp

lemma does_case_option [does_rules]:
  "(x = None \<Longrightarrow> does P Q m) \<Longrightarrow> (\<And>y. x = Some y \<Longrightarrow> does P Q (f y)) \<Longrightarrow>
   does P Q (case x of None \<Rightarrow> m | Some y \<Rightarrow> f y)"
  by (cases x) auto

lemma does_case_prod [does_rules]:
  "(\<And>a b. x = (a, b) \<Longrightarrow> does P Q (f a b)) \<Longrightarrow> does P Q (case x of (a, b) \<Rightarrow> f a b)"
  by (cases x) auto

lemma does_Let [does_rules]: "does P Q (f t) \<Longrightarrow> does P Q (let x = t in f x)"
  by simp

lemma does_foldM:
  assumes "I a" and "\<And>a x. x \<in> set xs \<Longrightarrow> I a \<Longrightarrow> does P I (f a x)"
  shows "does P I (foldM f a xs)"
  using assms
proof (induction xs arbitrary: a)
  case Nil
  then show ?case by (auto intro: does_rules)
next
  case (Cons x xs)
  then show ?case by (auto intro!: does_andThen [where R = I])
qed

lemma does_foldM_upt:
  assumes "I 0 a" and "\<And>i b. i < n \<Longrightarrow> I i b \<Longrightarrow> does P (I (Suc i)) (f b i)"
  shows "does P (I n) (foldM f a [0..<n])"
proof -
  have "does P (I (j + length [j..<n])) (foldM f b [j..<n])" if "I j b" "j \<le> n" for j b
    using that
  proof (induction "n - j" arbitrary: j b)
    case 0
    then show ?case by (auto intro: does_ret)
  next
    case (Suc x)
    then have j: "j < n" by simp
    have "does P (I (Suc j + length [Suc j..<n])) (foldM f c [Suc j..<n])" if "I (Suc j) c" for c
      using Suc.hyps(1) [of "Suc j" c] Suc.hyps(2) that j by simp
    moreover have "does P (I (Suc j)) (f b j)" using assms(2) j Suc.prems(1) by blast
    ultimately show ?case using j
      by (simp add: upt_conv_Cons does_andThen del: upt_Suc)
  qed
  from this [of 0 a] assms(1) show ?thesis by simp
qed

lemma does_conj:
  "does P Q m \<Longrightarrow> does P Q' m \<Longrightarrow> does P (\<lambda>x. Q x \<and> Q' x) m"
  by (simp add: does_def)

lemma emits_foldM [does_rules]:
  "(\<And>a x. x \<in> set xs \<Longrightarrow> emits P (f a x)) \<Longrightarrow> emits P (foldM f a xs)"
  by (rule does_foldM) auto

section \<open>Programs in a world that stays as it is\<close>

text \<open>
  \<open>under V Q m\<close>: started in a world that satisfies \<open>V\<close>, the program \<open>m\<close> keeps \<open>V\<close>, and every value it
  returns satisfies \<open>Q\<close>.
\<close>

definition under :: "('w \<Rightarrow> bool) \<Rightarrow> ('a \<Rightarrow> bool) \<Rightarrow> ('w, 'c, 'a) prog \<Rightarrow> bool" where
  "under V Q m \<longleftrightarrow> (\<forall>s. V (wld s) \<longrightarrow> V (wld (snd (m s))) \<and> (\<forall>x. fst (m s) = Ok x \<longrightarrow> Q x))"

abbreviation keeps :: "('w \<Rightarrow> bool) \<Rightarrow> ('w, 'c, 'a) prog \<Rightarrow> bool" where
  "keeps V m \<equiv> under V (\<lambda>_. True) m"

lemma underD: "under V Q m \<Longrightarrow> V (wld s) \<Longrightarrow> m s = (r, t) \<Longrightarrow> V (wld t) \<and> (\<forall>x. r = Ok x \<longrightarrow> Q x)"
  unfolding under_def by (metis fst_conv snd_conv)

lemma under_weaken: "under V Q m \<Longrightarrow> (\<And>x. Q x \<Longrightarrow> Q' x) \<Longrightarrow> under V Q' m"
  by (auto simp: under_def)

lemma under_does: "under V Q m \<Longrightarrow> does P R m \<Longrightarrow> under V (\<lambda>x. R x \<and> Q x) m"
  by (auto simp: under_def does_def)

lemma under_ret [under_rules]: "Q x \<Longrightarrow> under V Q (ret x)"
  by (simp add: under_def ret_def)

lemma under_raise [under_rules]: "under V Q (raise e)"
  by (simp add: under_def raise_def)

lemma under_andThen:
  fixes m :: "('w, 'c, 'a) prog"
  assumes m: "under V R m" and f: "\<And>x. R x \<Longrightarrow> under V Q (f x)"
  shows "under V Q (andThen m f)"
  unfolding under_def
proof (intro allI impI)
  fix s :: "('w, 'c) st"
  assume s: "V (wld s)"
  obtain r t where run: "m s = (r, t)" by fastforce
  with m s have t: "V (wld t)" and r: "\<forall>x. r = Ok x \<longrightarrow> R x" using underD by blast+
  show "V (wld (snd (andThen m f s))) \<and> (\<forall>x. fst (andThen m f s) = Ok x \<longrightarrow> Q x)"
    using run t r f by (cases r) (auto simp: andThen_def under_def)
qed

lemma under_seq [under_rules]:
  "keeps V m \<Longrightarrow> (\<And>x. under V Q (f x)) \<Longrightarrow> under V Q (andThen m f)"
  by (rule under_andThen)

lemma under_wrapErr [under_rules]: "under V Q m \<Longrightarrow> under V Q (wrapErr msg m)"
  by (simp add: under_def wrapErr_def split_beta)

lemma under_if [under_rules]:
  "(b \<Longrightarrow> under V Q m) \<Longrightarrow> (\<not> b \<Longrightarrow> under V Q n) \<Longrightarrow> under V Q (if b then m else n)"
  by simp

lemma under_case_option [under_rules]:
  "(x = None \<Longrightarrow> under V Q m) \<Longrightarrow> (\<And>y. x = Some y \<Longrightarrow> under V Q (f y)) \<Longrightarrow>
   under V Q (case x of None \<Rightarrow> m | Some y \<Rightarrow> f y)"
  by (cases x) auto

lemma under_case_prod [under_rules]:
  "(\<And>a b. x = (a, b) \<Longrightarrow> under V Q (f a b)) \<Longrightarrow> under V Q (case x of (a, b) \<Rightarrow> f a b)"
  by (cases x) auto

lemma under_foldM:
  assumes "I [] a" and "\<And>pre x b. \<exists>rest. xs = pre @ x # rest \<Longrightarrow> I pre b \<Longrightarrow> under V (I (pre @ [x])) (f b x)"
  shows "under V (I xs) (foldM f a xs)"
proof -
  have "under V (I (pre @ ys)) (foldM f b ys)" if "xs = pre @ ys" "I pre b" for pre b ys
    using that
  proof (induction ys arbitrary: pre b)
    case Nil
    then show ?case by (auto intro: under_ret)
  next
    case (Cons y ys)
    then have "under V (I (pre @ [y])) (f b y)" by (intro assms(2)) auto
    moreover have "under V (I ((pre @ [y]) @ ys)) (foldM f c ys)" if "I (pre @ [y]) c" for c
      using Cons that by (intro Cons.IH) auto
    ultimately show ?case by (auto intro: under_andThen)
  qed
  from this [of "[]" xs a] assms(1) show ?thesis by simp
qed

lemma under_foldM_upt:
  assumes "I 0 a" and "\<And>i b. i < n \<Longrightarrow> I i b \<Longrightarrow> under V (I (Suc i)) (f b i)"
  shows "under V (I n) (foldM f a [0..<n])"
proof -
  have "under V (I (length [0..<n])) (foldM f a [0..<n])"
  proof (rule under_foldM [where I = "\<lambda>pre. I (length pre)"])
    fix pre i b
    assume ex: "\<exists>rest. [0..<n] = pre @ i # rest" and b: "I (length pre) b"
    then obtain rest where eq: "[0..<n] = pre @ i # rest" by blast
    have "length pre < n" using arg_cong [OF eq, of length] by simp
    moreover from this have "i = length pre" using arg_cong [OF eq, of "\<lambda>xs. xs ! length pre"] by simp
    ultimately show "under V (I (length (pre @ [i]))) (f b i)" using assms(2) b by simp
  qed (use assms(1) in simp)
  then show ?thesis by simp
qed

lemma keeps_foldM [under_rules]:
  "(\<And>a x. keeps V (f a x)) \<Longrightarrow> keeps V (foldM f a xs)"
  by (rule under_foldM) auto

lemma keeps_readOp: "(\<And>w. V w \<Longrightarrow> V (snd (f w))) \<Longrightarrow> keeps V (readOp f)"
  by (auto simp: under_def readOp_def split: prod.split sum.split) (metis snd_conv)+

lemma keeps_peekOp: "(\<And>w. V w \<Longrightarrow> V (snd (f w))) \<Longrightarrow> keeps V (peekOp f)"
  by (auto simp: under_def peekOp_def split: prod.split) (metis snd_conv)+

lemma keeps_writeOp: "(\<And>w. V w \<Longrightarrow> V (snd (f c w))) \<Longrightarrow> keeps V (writeOp f c)"
  by (auto simp: under_def writeOp_def split: prod.split) (metis snd_conv)+

section \<open>Lists\<close>

lemma count_foldl:
  "foldl (\<lambda>n x. if p x then n + 1 else n) k xs = (k::int) + int (length (filter p xs))"
  by (induction xs arbitrary: k) auto

text \<open>A counting loop.\<close>

lemma foldM_count:
  assumes "\<And>n x. x \<in> set xs \<Longrightarrow> f n x s = (Ok (if p x then n + 1 else n), s)"
  shows "foldM f k xs s = (Ok ((k::int) + int (length (filter p xs))), s)"
  using foldM_pure [of xs f s "\<lambda>n x. if p x then n + 1 else n" k] assms
  by (simp add: count_foldl)

lemma find_append: "find p (xs @ ys) = (case find p xs of None \<Rightarrow> find p ys | Some x \<Rightarrow> Some x)"
  by (induction xs) auto

lemma run_eqI: "fst p = x \<Longrightarrow> p = (x, snd p)"
  by (cases p) simp

end
