(* ===== verification/GoStd.thy ===== *)
theory GoStd
  imports Prelude "HOL-Library.Sublist"
begin

text \<open>
  What the program uses of the Go language and its standard library, as executable
  definitions: decimal conversion (\<open>strconv.Atoi\<close>), the decoding of a string into runes by
  \<open>for range\<close>, \<open>unicode.IsLetter\<close> and \<open>unicode.IsDigit\<close>, instants and durations of package
  \<open>time\<close>, \<open>sort.Slice\<close>, and the order in which \<open>range\<close> visits a map. A Go string is a list of
  bytes (\<open>char\<close> is an 8-bit value), so \<open>len\<close> is \<open>length\<close>.
\<close>

section \<open>strconv.Atoi\<close>

definition isDigitChar :: "char \<Rightarrow> bool" where
  "isDigitChar c \<longleftrightarrow> 48 \<le> (of_char c :: nat) \<and> (of_char c :: nat) \<le> 57"

definition digitVal :: "char \<Rightarrow> nat" where
  "digitVal c = of_char c - 48"

fun digitsVal :: "nat \<Rightarrow> string \<Rightarrow> nat" where
  "digitsVal acc [] = acc"
| "digitsVal acc (c # cs) = digitsVal (acc * 10 + digitVal c) cs"

definition int64_min :: int where "int64_min = - (2 ^ 63)"
definition int64_max :: int where "int64_max = 2 ^ 63 - 1"

text \<open>
  Base 10, an optional sign, at least one digit, nothing else (an underscore is accepted only
  when the base is 0); a value outside the 64-bit range is a range error.
\<close>

definition Atoi :: "string \<Rightarrow> int outcome" where
  "Atoi s =
     (let neg = (s \<noteq> [] \<and> hd s = CHR ''-'');
          ds = (if s \<noteq> [] \<and> (hd s = CHR ''-'' \<or> hd s = CHR ''+'') then tl s else s)
      in if ds = [] \<or> \<not> list_all isDigitChar ds then Fail (Msg ''invalid syntax'')
         else let v = (if neg then - int (digitsVal 0 ds) else int (digitsVal 0 ds))
              in if int64_min \<le> v \<and> v \<le> int64_max then Ok v
                 else Fail (Msg ''value out of range''))"

text \<open>Decimal notation, the reference that \<open>Atoi\<close> is compared with.\<close>

definition digitChar :: "nat \<Rightarrow> char" where
  "digitChar d = char_of (48 + d)"

fun showNat :: "nat \<Rightarrow> string" where
  "showNat n = (if n < 10 then [digitChar n] else showNat (n div 10) @ [digitChar (n mod 10)])"

declare showNat.simps [simp del]

definition showInt :: "int \<Rightarrow> string" where
  "showInt v = (if v < 0 then CHR ''-'' # showNat (nat (- v)) else showNat (nat v))"

lemma of_char_digitChar: "d < 10 \<Longrightarrow> of_char (digitChar d) = 48 + d"
  by (simp add: digitChar_def)

lemma digitChar_simps [simp]:
  "d < 10 \<Longrightarrow> isDigitChar (digitChar d)"
  "d < 10 \<Longrightarrow> digitVal (digitChar d) = d"
  by (simp_all add: isDigitChar_def digitVal_def of_char_digitChar)

lemma digitsVal_append [simp]: "digitsVal a (xs @ ys) = digitsVal (digitsVal a xs) ys"
  by (induction xs arbitrary: a) auto

lemma showNat_digits: "list_all isDigitChar (showNat n) \<and> showNat n \<noteq> [] \<and> digitsVal 0 (showNat n) = n"
proof (induction n rule: showNat.induct)
  case (1 n)
  show ?case
  proof (cases "n < 10")
    case True
    then show ?thesis by (simp add: showNat.simps [of n])
  next
    case False
    with 1 show ?thesis by (simp add: showNat.simps [of n])
  qed
qed

lemma isDigitChar_not_sign:
  "isDigitChar c \<Longrightarrow> c \<noteq> CHR ''-'' \<and> c \<noteq> CHR ''+''"
  by (auto simp: isDigitChar_def)

lemma Atoi_digits:
  assumes "list_all isDigitChar ds" and "ds \<noteq> []"
  shows "Atoi ds = (if int (digitsVal 0 ds) \<le> int64_max then Ok (int (digitsVal 0 ds))
                    else Fail (Msg ''value out of range''))"
proof -
  have "hd ds \<noteq> CHR ''-'' \<and> hd ds \<noteq> CHR ''+''"
    using assms by (intro isDigitChar_not_sign) (cases ds; simp)
  then show ?thesis using assms by (simp add: Atoi_def int64_min_def)
qed

lemma Atoi_neg_digits:
  assumes "list_all isDigitChar ds" and "ds \<noteq> []"
  shows "Atoi (CHR ''-'' # ds) =
     (if int64_min \<le> - int (digitsVal 0 ds) then Ok (- int (digitsVal 0 ds))
      else Fail (Msg ''value out of range''))"
  using assms by (simp add: Atoi_def int64_max_def)

lemma Atoi_showInt:
  "int64_min \<le> v \<Longrightarrow> v \<le> int64_max \<Longrightarrow> Atoi (showInt v) = Ok v"
  using showNat_digits by (auto simp: showInt_def Atoi_digits Atoi_neg_digits)

lemma Atoi_Ok_range: "Atoi s = Ok v \<Longrightarrow> int64_min \<le> v \<and> v \<le> int64_max"
  by (auto simp: Atoi_def Let_def split: if_splits)

lemma Atoi_not_Panic [simp]: "Atoi s \<noteq> Panic p"
  by (auto simp: Atoi_def Let_def)

section \<open>Strings\<close>

definition HasPrefix :: "string \<Rightarrow> string \<Rightarrow> bool" where
  "HasPrefix s p \<longleftrightarrow> take (length p) s = p"

definition HasSuffix :: "string \<Rightarrow> string \<Rightarrow> bool" where
  "HasSuffix s p \<longleftrightarrow> length p \<le> length s \<and> drop (length s - length p) s = p"

lemma HasPrefix_iff: "HasPrefix s p \<longleftrightarrow> (\<exists>r. s = p @ r)"
  by (auto simp: HasPrefix_def) (metis append_take_drop_id)

lemma HasSuffix_iff: "HasSuffix s p \<longleftrightarrow> (\<exists>r. s = r @ p)"
  by (auto simp: HasSuffix_def) (metis append_take_drop_id)

text \<open>
  The runes of a string, as \<open>for _, c := range s\<close> yields them: UTF-8 with overlong forms,
  surrogates and values above \<open>0x10FFFF\<close> rejected; a byte that starts no valid encoding
  yields the replacement rune \<open>0xFFFD\<close> and is skipped alone.
\<close>

definition contByte :: "nat \<Rightarrow> bool" where
  "contByte b \<longleftrightarrow> 128 \<le> b \<and> b \<le> 191"

definition secondLow :: "nat \<Rightarrow> nat" where
  "secondLow b0 = (if b0 = 224 then 160 else if b0 = 240 then 144 else 128)"

definition secondHigh :: "nat \<Rightarrow> nat" where
  "secondHigh b0 = (if b0 = 237 then 159 else if b0 = 244 then 143 else 191)"

fun decode2 :: "nat \<Rightarrow> nat list \<Rightarrow> nat \<times> nat" where
  "decode2 b0 (b1 # bs) =
     (if contByte b1 then ((b0 - 192) * 64 + (b1 - 128), 2) else (65533, 1))"
| "decode2 b0 _ = (65533, 1)"

fun decode3 :: "nat \<Rightarrow> nat list \<Rightarrow> nat \<times> nat" where
  "decode3 b0 (b1 # b2 # bs) =
     (if secondLow b0 \<le> b1 \<and> b1 \<le> secondHigh b0 \<and> contByte b2
      then ((b0 - 224) * 4096 + (b1 - 128) * 64 + (b2 - 128), 3) else (65533, 1))"
| "decode3 b0 _ = (65533, 1)"

fun decode4 :: "nat \<Rightarrow> nat list \<Rightarrow> nat \<times> nat" where
  "decode4 b0 (b1 # b2 # b3 # bs) =
     (if secondLow b0 \<le> b1 \<and> b1 \<le> secondHigh b0 \<and> contByte b2 \<and> contByte b3
      then ((b0 - 240) * 262144 + (b1 - 128) * 4096 + (b2 - 128) * 64 + (b3 - 128), 4)
      else (65533, 1))"
| "decode4 b0 _ = (65533, 1)"

fun decodeRune :: "nat list \<Rightarrow> nat \<times> nat" where
  "decodeRune [] = (65533, 1)"
| "decodeRune (b0 # bs) =
     (if b0 < 128 then (b0, 1)
      else if 194 \<le> b0 \<and> b0 \<le> 223 then decode2 b0 bs
      else if 224 \<le> b0 \<and> b0 \<le> 239 then decode3 b0 bs
      else if 240 \<le> b0 \<and> b0 \<le> 244 then decode4 b0 bs
      else (65533, 1))"

lemma secondLow_ge: "128 \<le> secondLow b"
  by (simp add: secondLow_def)

function runesOf :: "nat list \<Rightarrow> nat list" where
  "runesOf [] = []"
| "runesOf (b # bs) =
     fst (decodeRune (b # bs)) # runesOf (drop (snd (decodeRune (b # bs)) - 1) bs)"
  by pat_completeness auto
termination
  by (relation "measure length") auto

definition runes :: "string \<Rightarrow> nat list" where
  "runes s = runesOf (map of_char s)"

lemma runesOf_ascii: "list_all (\<lambda>b. b < 128) bs \<Longrightarrow> runesOf bs = bs"
  by (induction bs) auto

text \<open>A byte below 128 always decodes to itself: it is part of no longer encoding.\<close>

lemma decode2_drops_high: "b \<in> set (take (snd (decode2 b0 bs) - 1) bs) \<Longrightarrow> 128 \<le> b"
  by (induction b0 bs rule: decode2.induct) (auto simp: contByte_def split: if_splits)

lemma decode3_drops_high: "b \<in> set (take (snd (decode3 b0 bs) - 1) bs) \<Longrightarrow> 128 \<le> b"
  using secondLow_ge [of b0]
  by (induction b0 bs rule: decode3.induct) (auto simp: contByte_def split: if_splits)

lemma decode4_drops_high: "b \<in> set (take (snd (decode4 b0 bs) - 1) bs) \<Longrightarrow> 128 \<le> b"
  using secondLow_ge [of b0]
  by (induction b0 bs rule: decode4.induct) (auto simp: contByte_def split: if_splits)

lemma decodeRune_drops_high:
  "b \<in> set (take (snd (decodeRune (b0 # bs)) - 1) bs) \<Longrightarrow> 128 \<le> b"
  by (auto split: if_splits dest: decode2_drops_high [simplified] decode3_drops_high [simplified] decode4_drops_high [simplified])

lemma ascii_in_runesOf: "b \<in> set bs \<Longrightarrow> b < 128 \<Longrightarrow> b \<in> set (runesOf bs)"
proof (induction bs rule: runesOf.induct)
  case (2 b0 bs)
  let ?n = "snd (decodeRune (b0 # bs)) - 1"
  show ?case
  proof (cases "b = b0")
    case True
    with 2 show ?thesis by simp
  next
    case False
    have "b \<notin> set (take ?n bs)"
      using decodeRune_drops_high [of b b0 bs] 2(3) by auto
    moreover have "b \<in> set (take ?n bs) \<union> set (drop ?n bs)"
      using 2(2) False by (metis Un_iff append_take_drop_id set_append set_ConsD)
    ultimately show ?thesis using 2 by simp
  qed
qed simp

lemma ascii_in_runes: "c \<in> set s \<Longrightarrow> (of_char c :: nat) < 128 \<Longrightarrow> of_char c \<in> set (runes s)"
  unfolding runes_def by (rule ascii_in_runesOf) auto

lemma runes_ascii: "list_all (\<lambda>c. (of_char c :: nat) < 128) s \<Longrightarrow> runes s = map of_char s"
  unfolding runes_def by (rule runesOf_ascii) (simp add: list_all_iff)

section \<open>Package unicode\<close>

text \<open>
  For runes up to \<open>0xFF\<close> Go consults its Latin-1 property table; the letters there are the
  ASCII letters, \<open>0xAA\<close>, \<open>0xB5\<close>, \<open>0xBA\<close> and \<open>0xC0\<close> to \<open>0xFF\<close> without the signs \<open>0xD7\<close> and \<open>0xF7\<close>,
  and the digits are the ASCII digits. Above, it consults the Unicode range tables, which are
  a parameter (\<open>hi\<close>).
\<close>

definition IsLetter :: "(nat \<Rightarrow> bool) \<Rightarrow> nat \<Rightarrow> bool" where
  "IsLetter hi r \<longleftrightarrow>
     (if r \<le> 255 then
        (65 \<le> r \<and> r \<le> 90) \<or> (97 \<le> r \<and> r \<le> 122) \<or> r = 170 \<or> r = 181 \<or> r = 186 \<or>
        (192 \<le> r \<and> r \<noteq> 215 \<and> r \<noteq> 247)
      else hi r)"

definition IsDigit :: "(nat \<Rightarrow> bool) \<Rightarrow> nat \<Rightarrow> bool" where
  "IsDigit hi r \<longleftrightarrow> (if r \<le> 255 then 48 \<le> r \<and> r \<le> 57 else hi r)"

section \<open>Package time\<close>

text \<open>
  An instant is its distance from the Unix epoch in nanoseconds; \<open>Before\<close> and \<open>After\<close> compare
  instants. A duration is a signed 64-bit number of nanoseconds and \<open>Sub\<close> saturates.
\<close>

datatype gotime = Nanos (nanos: int)

instantiation gotime :: linorder
begin

definition less_eq_gotime :: "gotime \<Rightarrow> gotime \<Rightarrow> bool" where
  "less_eq_gotime t u \<longleftrightarrow> nanos t \<le> nanos u"

definition less_gotime :: "gotime \<Rightarrow> gotime \<Rightarrow> bool" where
  "less_gotime t u \<longleftrightarrow> nanos t < nanos u"

instance
  by standard (auto simp: less_eq_gotime_def less_gotime_def gotime.expand)

end

definition zeroTime :: gotime where
  "zeroTime = Nanos (- 62135596800000000000)"

definition IsZero :: "gotime \<Rightarrow> bool" where
  "IsZero t \<longleftrightarrow> t = zeroTime"

definition Sub :: "gotime \<Rightarrow> gotime \<Rightarrow> int" where
  "Sub t u = max int64_min (min int64_max (nanos t - nanos u))"

lemma Sub_range: "int64_min \<le> Sub t u \<and> Sub t u \<le> int64_max"
  by (auto simp: Sub_def int64_min_def int64_max_def)

lemma Sub_gt: "d < int64_max \<Longrightarrow> int64_min \<le> d \<Longrightarrow> d < Sub t u \<longleftrightarrow> d < nanos t - nanos u"
  by (auto simp: Sub_def)

section \<open>Orders the language leaves open\<close>

text \<open>
  \<open>range\<close> visits the keys of a map in an unspecified order. A list of numbers selects one: each
  number picks the next element among those that are left. Every order is selected by some
  list, and only permutations are.
\<close>

fun arrange :: "nat list \<Rightarrow> 'a list \<Rightarrow> 'a list" where
  "arrange [] xs = xs"
| "arrange (n # ns) xs =
     (if xs = [] then []
      else let i = n mod length xs in xs ! i # arrange ns (take i xs @ drop (Suc i) xs))"

lemma mset_arrange [simp]: "mset (arrange ns xs) = mset xs"
proof (induction ns xs rule: arrange.induct)
  case (2 n ns xs)
  show ?case
  proof (cases "xs = []")
    case False
    let ?i = "n mod length xs"
    have "?i < length xs" using False by simp
    then have "mset xs = add_mset (xs ! ?i) (mset (take ?i xs @ drop (Suc ?i) xs))"
      by (metis id_take_nth_drop mset.simps(2) mset_append union_mset_add_mset_right)
    with 2 False show ?thesis by (simp add: Let_def)
  qed simp
qed simp

lemma set_arrange [simp]: "set (arrange ns xs) = set xs"
  by (metis mset_arrange set_mset_mset)

lemma length_arrange [simp]: "length (arrange ns xs) = length xs"
  by (metis mset_arrange size_mset)

lemma distinct_arrange [simp]: "distinct (arrange ns xs) = distinct xs"
  by (metis mset_arrange mset_eq_imp_distinct_iff)

lemma arrange_complete: "mset ys = mset xs \<Longrightarrow> \<exists>ns. arrange ns xs = ys"
proof (induction ys arbitrary: xs)
  case (Cons y ys)
  then have "y \<in> set xs" by (metis list.set_intros(1) set_mset_mset)
  then obtain i where i: "i < length xs" "xs ! i = y" by (auto simp: in_set_conv_nth)
  let ?rest = "take i xs @ drop (Suc i) xs"
  have "mset xs = add_mset y (mset ?rest)"
    using i by (metis id_take_nth_drop mset.simps(2) mset_append union_mset_add_mset_right)
  with Cons.prems have "mset ys = mset ?rest" by simp
  then obtain ns where "arrange ns ?rest = ys" using Cons.IH by blast
  with i have "arrange (i # ns) xs = y # ys" by (auto simp: Let_def)
  then show ?case by blast
qed (auto intro: exI [of _ "[]"])

text \<open>
  \<open>sort.Slice\<close> is not stable: it returns some permutation that its \<open>less\<close> function orders. The
  model arranges the slice in an arbitrary way and then sorts it stably, which yields exactly
  those permutations.
\<close>

fun insertBy :: "('a \<Rightarrow> 'a \<Rightarrow> bool) \<Rightarrow> 'a \<Rightarrow> 'a list \<Rightarrow> 'a list" where
  "insertBy lt x [] = [x]"
| "insertBy lt x (y # ys) = (if lt y x then y # insertBy lt x ys else x # y # ys)"

definition sortSlice :: "('a \<Rightarrow> 'a \<Rightarrow> bool) \<Rightarrow> nat list \<Rightarrow> 'a list \<Rightarrow> 'a list" where
  "sortSlice lt ns xs = foldr (insertBy lt) (arrange ns xs) []"

lemma mset_insertBy: "mset (insertBy lt x xs) = add_mset x (mset xs)"
  by (induction xs) auto

lemma mset_foldr_insertBy: "mset (foldr (insertBy lt) xs []) = mset xs"
  by (induction xs) (auto simp: mset_insertBy)

lemma mset_sortSlice [simp]: "mset (sortSlice lt ns xs) = mset xs"
  by (simp add: sortSlice_def mset_foldr_insertBy)

lemma set_sortSlice [simp]: "set (sortSlice lt ns xs) = set xs"
  by (metis mset_sortSlice set_mset_mset)

lemma length_sortSlice [simp]: "length (sortSlice lt ns xs) = length xs"
  by (metis mset_sortSlice size_mset)

text \<open>The interface of \<open>sort.Slice\<close>: a strict weak order, given as a key comparison.\<close>

locale slice_order =
  fixes lt :: "'a \<Rightarrow> 'a \<Rightarrow> bool"
  assumes lt_asym: "lt x y \<Longrightarrow> \<not> lt y x"
    and lt_weak: "lt x z \<Longrightarrow> lt x y \<or> lt y z"
begin

lemma insertBy_sorted:
  "sorted_wrt (\<lambda>x y. \<not> lt y x) xs \<Longrightarrow> sorted_wrt (\<lambda>x y. \<not> lt y x) (insertBy lt x xs)"
proof (induction xs)
  case (Cons y ys)
  have set_ins: "set (insertBy lt x ys) = insert x (set ys)"
    by (metis mset_insertBy set_mset_add_mset_insert set_mset_mset)
  from Cons show ?case
    by (auto simp: set_ins dest: lt_asym lt_weak)
qed simp

lemma sortSlice_sorted: "sorted_wrt (\<lambda>x y. \<not> lt y x) (sortSlice lt ns xs)"
proof -
  have "sorted_wrt (\<lambda>x y. \<not> lt y x) (foldr (insertBy lt) zs [])" for zs
    by (induction zs) (auto intro: insertBy_sorted)
  then show ?thesis by (simp add: sortSlice_def)
qed

lemma sortSlice_complete:
  assumes "sorted_wrt (\<lambda>x y. \<not> lt y x) ys" and "mset ys = mset xs"
  shows "\<exists>ns. sortSlice lt ns xs = ys"
proof -
  have "foldr (insertBy lt) ys [] = ys"
    using assms(1)
  proof (induction ys)
    case (Cons y ys)
    then show ?case by (cases ys) auto
  qed simp
  moreover obtain ns where "arrange ns xs = ys"
    using arrange_complete [OF assms(2)] by blast
  ultimately show ?thesis by (auto simp: sortSlice_def)
qed

end

section \<open>Package regexp\<close>

text \<open>
  \<open>ReplaceAllString(s, "")\<close> of the pattern \<open>-fabric\d+$\<close>: the trailing digits of \<open>s\<close> are
  removed with the text \<open>-fabric\<close> before them, if there is at least one digit and that text.
\<close>

definition stripFabric :: "string \<Rightarrow> string" where
  "stripFabric s =
     (let ds = takeWhile isDigitChar (rev s);
          front = take (length s - length ds) s
      in if ds \<noteq> [] \<and> HasSuffix front ''-fabric'' then take (length front - 7) front else s)"

lemma takeWhile_rev_split:
  assumes "list_all isDigitChar ds" "r = [] \<or> \<not> isDigitChar (last r)"
  shows "takeWhile isDigitChar (rev (r @ ds)) = rev ds"
proof -
  have "takeWhile isDigitChar (rev r) = []"
    using assms(2) by (cases r rule: rev_cases) auto
  moreover have "\<forall>c\<in>set (rev ds). isDigitChar c"
    using assms(1) by (auto simp: list_all_iff)
  ultimately show ?thesis
    by (metis append_Nil2 rev_append takeWhile_append2)
qed

lemma stripFabric_match:
  assumes "list_all isDigitChar ds" "ds \<noteq> []"
  shows "stripFabric (p @ ''-fabric'' @ ds) = p"
proof -
  have "takeWhile isDigitChar (rev ((p @ ''-fabric'') @ ds)) = rev ds"
    using assms(1) by (rule takeWhile_rev_split) (simp add: isDigitChar_def)
  then show ?thesis using assms(2)
    by (simp add: stripFabric_def Let_def HasSuffix_def)
qed

lemma stripFabric_nomatch:
  assumes "\<not> (\<exists>p ds. s = p @ ''-fabric'' @ ds \<and> ds \<noteq> [] \<and> list_all isDigitChar ds)"
  shows "stripFabric s = s"
proof (rule ccontr)
  let ?ds = "takeWhile isDigitChar (rev s)"
  let ?front = "take (length s - length ?ds) s"
  assume "stripFabric s \<noteq> s"
  then have ne: "?ds \<noteq> []" and suf: "HasSuffix ?front ''-fabric''"
    by (auto simp: stripFabric_def Let_def split: if_splits)
  have "s = ?front @ rev ?ds"
    by (metis append_take_drop_id rev_rev_ident rev_take rev_drop takeWhile_eq_take length_rev drop_rev)
  moreover obtain p where "?front = p @ ''-fabric''"
    using suf by (auto simp: HasSuffix_iff)
  ultimately have "s = p @ ''-fabric'' @ rev ?ds"
    by (metis append.assoc)
  moreover have "list_all isDigitChar (rev ?ds)"
    by (auto simp: list_all_iff dest: set_takeWhileD)
  ultimately show False using assms ne by blast
qed

end
