(* ===== verification/Types.thy ===== *)
theory Types
  imports GoStd
begin

text \<open>
  The data of the program.

  \<^item> The structs of \<open>src/internal/types\<close>, one record each. Field selectors carry the prefix of
    their struct. A Go \<open>int\<close> or \<open>int64\<close> that is only compared, copied and counted up is an
    \<open>int\<close>.
  \<^item> The API objects the controller reads and writes (core/v1, resource/v1 and the objects of
    the composable resource operator): records of the fields that the source uses. A map
    that the code ranges over is the list of its entries in the order of that one range; a
    slice that the code compares with \<open>nil\<close> is an option.
  \<^item> The environment: the Kubernetes clients, the clock, the YAML parser, RFC 3339 conversion
    and the Unicode tables are code outside the repository. They are the fields of the record
    \<open>env\<close>, functions on an arbitrary world. Every operation takes an \<open>env\<close> and no property
    fixes one, except where a hypothesis says so.
  \<^item> The mutating API calls, as data.
\<close>

section \<open>Structs of internal/types\<close>

record DeviceInfo =
  di_Index :: int
  di_CDIModelName :: string
  di_DRAAttributes :: "(string \<times> string) list"
  di_LabelKeyModel :: string
  di_DriverName :: string
  di_K8sDeviceName :: string
  di_CannotCoexistWith :: "int list"

record ComposableDRASpec =
  sp_DeviceInfos :: "DeviceInfo list"
  sp_LabelPrefix :: string
  sp_FabricIDRange :: "int list"

record ModelConstraints =
  mc_Model :: string
  mc_DeviceName :: string
  mc_MaxDevice :: int
  mc_MinDevice :: int
  mc_MaxDeviceSet :: bool

record NodeInfo =
  ni_Name :: string
  ni_Models :: "ModelConstraints list"

record ResourceClaimDevice =
  rcd_Name :: string
  rcd_Model :: string
  rcd_State :: string
  rcd_Driver :: string
  rcd_Pool :: string

text \<open>
  Copies of a \<open>ResourceClaimInfo\<close> share the array behind \<open>Devices\<close>, and \<open>setDevicesState\<close>
  writes into it. The field \<open>rci_arr\<close> is the identity of that array: two structs with the same
  \<open>rci_arr\<close> show the same devices. It stands for the slice's pointer and has no counterpart in
  the struct.
\<close>

record ResourceClaimInfo =
  rci_Name :: string
  rci_NodeName :: string
  rci_CreationTimestamp :: gotime
  rci_Namespace :: string
  rci_Devices :: "ResourceClaimDevice list"
  rci_arr :: nat

record ResourceSliceDevice =
  rsd_Name :: string
  rsd_UUID :: string

record ResourceSliceInfo =
  rsi_Name :: string
  rsi_NodeName :: string
  rsi_CreationTimestamp :: gotime
  rsi_Driver :: string
  rsi_Devices :: "ResourceSliceDevice list"
  rsi_Pool :: string

section \<open>API objects\<close>

record Condition =
  cond_Type :: string
  cond_Status :: string
  cond_LastTransitionTime :: gotime
  cond_Reason :: string
  cond_Message :: string

record AllocatedDeviceStatus =
  ads_Driver :: string
  ads_Pool :: string
  ads_Device :: string
  ads_Conditions :: "Condition list option"

record AllocationDevice =
  dra_Driver :: string
  dra_Pool :: string
  dra_Device :: string
  dra_BindingConditions :: "string list"
  dra_BindingFailureConditions :: "string list"

record NodeSelectorRequirement =
  nsr_Key :: string
  nsr_Operator :: string
  nsr_Values :: "string list"

record NodeSelectorTerm =
  nst_MatchFields :: "NodeSelectorRequirement list"

record AllocationResult =
  al_Results :: "AllocationDevice list"
  al_NodeSelector :: "NodeSelectorTerm list option"

record ResourceClaim =
  rc_Name :: string
  rc_Namespace :: string
  rc_CreationTimestamp :: gotime
  rc_ReservedFor :: "string list"
  rc_Allocation :: "AllocationResult option"
  rc_Devices :: "AllocatedDeviceStatus list"

record SliceDevice =
  sd_Name :: string
  sd_Attributes :: "(string \<times> string option) list"
  sd_BindingConditions :: "string list"

record ResourceSlice =
  rs_Name :: string
  rs_CreationTimestamp :: gotime
  rs_Driver :: string
  rs_NodeName :: "string option"
  rs_PoolName :: string
  rs_Devices :: "SliceDevice list"

record ComposableResource =
  cr_Name :: string
  cr_Annotations :: "string \<rightharpoonup> string"
  cr_CreationTimestamp :: gotime
  cr_DeletionTimestamp :: "gotime option"
  cr_Model :: string
  cr_TargetNode :: string
  cr_State :: string
  cr_DeviceID :: string

record ComposabilityRequest =
  req_Name :: string
  req_Type :: string
  req_Model :: string
  req_Size :: int
  req_TargetNode :: string

record Node =
  node_Name :: string
  node_Labels :: "(string \<times> string) list"

section \<open>Mutating API calls\<close>

text \<open>
  Each constructor is one request body the code builds: the strategic merge patch of a node's
  labels (a map from labels to a value, or to \<open>null\<close>, which deletes the label), the merge patch of one annotation of a
  ComposableResource, the JSON patch that replaces the size of a ComposabilityRequest, the
  merge patch of \<open>status.devices\<close> of a ResourceClaim (namespace, name, devices), and the
  creation of a ComposabilityRequest (generateName, type, model, size, target node).
\<close>

datatype api_call =
    PatchNodeLabels string "(string \<times> string option) list"
  | PatchAnnotation string string string
  | PatchRequestSize string int
  | PatchClaimStatus string string "AllocatedDeviceStatus list"
  | CreateRequest string string string int string

section \<open>The environment\<close>

record 'w env =
  listComposabilityRequests :: "'w \<Rightarrow> (string + ComposabilityRequest list) \<times> 'w"
  listComposableResources :: "'w \<Rightarrow> (string + ComposableResource list) \<times> 'w"
  listResourceSlices :: "'w \<Rightarrow> (string + ResourceSlice list) \<times> 'w"
  listResourceClaims :: "'w \<Rightarrow> (string + ResourceClaim list) \<times> 'w"
  listNodes :: "'w \<Rightarrow> (string + Node list) \<times> 'w"
  getConfigMap :: "string \<Rightarrow> string \<Rightarrow> 'w \<Rightarrow> (string + (string \<rightharpoonup> string)) \<times> 'w"
  getComposableResource :: "string \<Rightarrow> 'w \<Rightarrow> (string + ComposableResource) \<times> 'w"
  getComposabilityRequest :: "string \<Rightarrow> 'w \<Rightarrow> (string + ComposabilityRequest) \<times> 'w"
  getResourceClaim :: "string \<Rightarrow> string \<Rightarrow> 'w \<Rightarrow> (string + ResourceClaim) \<times> 'w"
  apply_call :: "api_call \<Rightarrow> 'w \<Rightarrow> string option \<times> 'w"
  IsConflict :: "string \<Rightarrow> bool"
  clock :: "'w \<Rightarrow> gotime \<times> 'w"
  choice :: "'w \<Rightarrow> nat list \<times> 'w"
  yamlDeviceInfos :: "string \<Rightarrow> string + DeviceInfo list"
  yamlInts :: "string \<Rightarrow> string + int list"
  parseRFC3339 :: "string \<Rightarrow> string + gotime"
  formatRFC3339 :: "gotime \<Rightarrow> string"
  unicodeLetter :: "nat \<Rightarrow> bool"
  unicodeDigit :: "nat \<Rightarrow> bool"

type_synonym ('w, 'a) io = "('w, api_call, 'a) prog"
type_synonym event = "api_call \<times> bool"

text \<open>The clock, the visiting order of \<open>range\<close> over a map, and a mutating call.\<close>

definition now :: "'w env \<Rightarrow> ('w, gotime) io" where
  "now E = peekOp (clock E)"

definition rangeOrder :: "'w env \<Rightarrow> 'a list \<Rightarrow> ('w, 'a list) io" where
  "rangeOrder E xs = andThen (peekOp (choice E)) (\<lambda>ns. ret (arrange ns xs))"

definition issue :: "'w env \<Rightarrow> api_call \<Rightarrow> ('w, string option) io" where
  "issue E c = writeOp (apply_call E) c"

lemma does_now [does_rules]: "emits P (now E)"
  by (simp add: now_def does_peekOp)

lemma does_rangeOrder: "does P (\<lambda>ys. mset ys = mset xs) (rangeOrder E xs)"
  unfolding rangeOrder_def by (intro does_seq does_peekOp does_ret) simp

lemma emits_rangeOrder [does_rules]: "emits P (rangeOrder E xs)"
  using does_rangeOrder by (rule does_True)

lemma does_issue [does_rules]: "P (c, True) \<Longrightarrow> P (c, False) \<Longrightarrow> emits P (issue E c)"
  unfolding issue_def by (rule does_writeOp)

lemma rangeOrder_Ok:
  "rangeOrder E xs s = (Ok ys, t) \<Longrightarrow> mset ys = mset xs \<and> calls t = calls s"
  by (auto simp: rangeOrder_def andThen_Ok peekOp_def run_simps split: prod.splits)

lemma rangeOrder_total: "\<exists>ys t. rangeOrder E xs s = (Ok ys, t)"
  by (auto simp: rangeOrder_def andThen_def peekOp_def ret_def split: prod.splits)

end
