(* ===== verification/Cluster.thy ===== *)
theory Cluster
  imports Types
begin

text \<open>
  What the components rely on from the API server, as interfaces, and an in-memory API server
  that provides them.

  \<^item> \<open>snapshot_api\<close>: a list request returns the present objects and changes nothing.
  \<^item> \<open>quiet_api\<close>: in addition, a patch of a claim's status and a patch of a resource's
    annotation leave the specification and state of the resources and the allocations of the
    claims as they are.
  \<^item> \<open>frozen_api\<close>: in addition, the clock does not advance while claims are marked.

  The components never assume these laws: properties that need them name the locale predicate
  as a hypothesis. The in-memory server \<open>memEnv\<close> interprets all three interfaces, and it is the
  environment in which the hypotheses of properties are shown to be satisfiable.
\<close>

section \<open>Interfaces\<close>

text \<open>What the counting functions read of a resource.\<close>

definition resource_view :: "ComposableResource \<Rightarrow> string \<times> string \<times> string \<times> string" where
  "resource_view r = (cr_Model r, cr_TargetNode r, cr_State r, cr_DeviceID r)"

locale snapshot_api =
  fixes E :: "'w env"
    and claimsOf :: "'w \<Rightarrow> ResourceClaim list"
    and resourcesOf :: "'w \<Rightarrow> ComposableResource list"
    and requestsOf :: "'w \<Rightarrow> ComposabilityRequest list"
  assumes list_claims: "listResourceClaims E w = (Inr (claimsOf w), w)"
    and list_resources: "listComposableResources E w = (Inr (resourcesOf w), w)"
    and list_requests: "listComposabilityRequests E w = (Inr (requestsOf w), w)"
begin

lemma read_claims [run_simps]: "readOp (listResourceClaims E) s = (Ok (claimsOf (wld s)), s)"
  by (simp add: readOp_def list_claims)

lemma read_resources [run_simps]: "readOp (listComposableResources E) s = (Ok (resourcesOf (wld s)), s)"
  by (simp add: readOp_def list_resources)

lemma read_requests [run_simps]: "readOp (listComposabilityRequests E) s = (Ok (requestsOf (wld s)), s)"
  by (simp add: readOp_def list_requests)

end

text \<open>A call that touches only claim statuses and resource annotations.\<close>

fun marking_call :: "api_call \<Rightarrow> bool" where
  "marking_call (PatchClaimStatus ns n ds) = True"
| "marking_call (PatchAnnotation n k v) = True"
| "marking_call _ = False"

locale quiet_api = snapshot_api E claimsOf resourcesOf requestsOf
  for E :: "'w env" and claimsOf and resourcesOf and requestsOf +
  assumes quiet_resources: "marking_call c \<Longrightarrow> apply_call E c w = (r, w') \<Longrightarrow>
      map resource_view (resourcesOf w') = map resource_view (resourcesOf w)"
    and quiet_claims: "marking_call c \<Longrightarrow> apply_call E c w = (r, w') \<Longrightarrow>
      map rc_Allocation (claimsOf w') = map rc_Allocation (claimsOf w)"
    and quiet_reads:
      "getResourceClaim E ns n w = (x1, w') \<Longrightarrow> w' = w"
      "getComposableResource E n w = (x2, w') \<Longrightarrow> w' = w"
      "listResourceSlices E w = (x4, w') \<Longrightarrow> w' = w"
      "clock E w = (x5, w') \<Longrightarrow> w' = w"
      "choice E w = (x6, w') \<Longrightarrow> w' = w"

text \<open>The parts of the world that the counting functions read, unchanged since \<open>w0\<close>.\<close>

definition sameViews ::
    "('w \<Rightarrow> ComposableResource list) \<Rightarrow> ('w \<Rightarrow> ResourceClaim list) \<Rightarrow> 'w \<Rightarrow> 'w \<Rightarrow> bool" where
  "sameViews resourcesOf claimsOf w0 w \<longleftrightarrow>
     map resource_view (resourcesOf w) = map resource_view (resourcesOf w0) \<and>
     map rc_Allocation (claimsOf w) = map rc_Allocation (claimsOf w0)"

text \<open>A property of the world that the marking calls keep.\<close>

definition stable :: "'w env \<Rightarrow> ('w \<Rightarrow> bool) \<Rightarrow> bool" where
  "stable E V \<longleftrightarrow> (\<forall>c w. marking_call c \<longrightarrow> V w \<longrightarrow> V (snd (apply_call E c w)))"

lemma stable_conj [under_rules]: "stable E V \<Longrightarrow> stable E W \<Longrightarrow> stable E (\<lambda>w. V w \<and> W w)"
  by (simp add: stable_def)

lemma keeps_issue [under_rules]: "marking_call c \<Longrightarrow> stable E V \<Longrightarrow> keeps V (issue E c)"
  unfolding issue_def by (rule keeps_writeOp) (simp add: stable_def)

context quiet_api
begin

lemma now_run [run_simps]: "now E s = (Ok (fst (clock E (wld s))), s)"
  using quiet_reads(4) by (cases "clock E (wld s)") (auto simp: now_def peekOp_def)

lemma rangeOrder_run [run_simps]:
  "rangeOrder E xs s = (Ok (arrange (fst (choice E (wld s))) xs), s)"
  using quiet_reads(5)
  by (cases "choice E (wld s)") (auto simp: rangeOrder_def peekOp_def andThen_def ret_def)

abbreviation steady :: "'w \<Rightarrow> 'w \<Rightarrow> bool" where
  "steady \<equiv> sameViews resourcesOf claimsOf"

lemma keeps_reads [under_rules]:
  "keeps V (readOp (listResourceClaims E))" "keeps V (readOp (listComposableResources E))"
  "keeps V (readOp (listComposabilityRequests E))" "keeps V (readOp (listResourceSlices E))"
  "keeps V (readOp (getResourceClaim E ns n))" "keeps V (readOp (getComposableResource E n))"
  "keeps V (now E)" "keeps V (peekOp (choice E))"
  unfolding now_def
  by (rule keeps_readOp keeps_peekOp,
      simp add: list_claims list_resources list_requests quiet_reads [OF surjective_pairing])+

lemma keeps_rangeOrder [under_rules]: "keeps V (rangeOrder E xs)"
  unfolding rangeOrder_def by (intro under_rules) simp

lemma stable_steady [under_rules]: "stable E (steady w0)"
  unfolding stable_def
proof (intro allI impI)
  fix c w
  assume "marking_call c" "steady w0 w"
  then show "steady w0 (snd (apply_call E c w))"
    using quiet_resources [of c w] quiet_claims [of c w]
    by (cases "apply_call E c w") (simp add: sameViews_def)
qed

end

text \<open>A snapshot whose clock does not advance while claims are marked.\<close>

locale frozen_api = quiet_api E claimsOf resourcesOf requestsOf
  for E :: "'w env" and claimsOf and resourcesOf and requestsOf +
  assumes frozen_clock: "marking_call c \<Longrightarrow> apply_call E c w = (r, w') \<Longrightarrow>
      fst (clock E w') = fst (clock E w)"
begin

lemma stable_clock [under_rules]: "stable E (\<lambda>w. fst (clock E w) = t)"
  unfolding stable_def
proof (intro allI impI)
  fix c w
  assume "marking_call c" "fst (clock E w) = t"
  then show "fst (clock E (snd (apply_call E c w))) = t"
    using frozen_clock [of c w] by (cases "apply_call E c w") simp
qed

end

section \<open>An in-memory API server\<close>

record cluster =
  cl_claims :: "ResourceClaim list"
  cl_slices :: "ResourceSlice list"
  cl_resources :: "ComposableResource list"
  cl_requests :: "ComposabilityRequest list"
  cl_nodes :: "Node list"
  cl_config :: "string \<rightharpoonup> string"
  cl_time :: gotime
  cl_order :: "nat list"

text \<open>A lookup by name, and an update of the named object that fails when there is none.\<close>

definition lookupBy :: "('a \<Rightarrow> bool) \<Rightarrow> 'a list \<Rightarrow> string + 'a" where
  "lookupBy p xs = (case find p xs of None \<Rightarrow> Inl ''not found'' | Some x \<Rightarrow> Inr x)"

definition changeBy :: "('a \<Rightarrow> bool) \<Rightarrow> ('a \<Rightarrow> 'a) \<Rightarrow> 'a list \<Rightarrow> 'a list" where
  "changeBy p f xs = map (\<lambda>x. if p x then f x else x) xs"

definition patchLabels :: "(string \<times> string option) list \<Rightarrow> (string \<times> string) list \<Rightarrow> (string \<times> string) list" where
  "patchLabels p ls =
     filter (\<lambda>(k, v). map_of p k = None) ls @
     concat (map (\<lambda>(k, ov). case ov of None \<Rightarrow> [] | Some v \<Rightarrow> [(k, v)]) p)"

fun memApply :: "api_call \<Rightarrow> cluster \<Rightarrow> string option \<times> cluster" where
  "memApply (PatchNodeLabels n p) w =
     (None, w\<lparr>cl_nodes := changeBy (\<lambda>x. node_Name x = n)
        (\<lambda>x. x\<lparr>node_Labels := patchLabels p (node_Labels x)\<rparr>) (cl_nodes w)\<rparr>)"
| "memApply (PatchAnnotation n k v) w =
     (None, w\<lparr>cl_resources := changeBy (\<lambda>x. cr_Name x = n)
        (\<lambda>x. x\<lparr>cr_Annotations := (cr_Annotations x)(k \<mapsto> v)\<rparr>) (cl_resources w)\<rparr>)"
| "memApply (PatchRequestSize n c) w =
     (None, w\<lparr>cl_requests := changeBy (\<lambda>x. req_Name x = n) (\<lambda>x. x\<lparr>req_Size := c\<rparr>) (cl_requests w)\<rparr>)"
| "memApply (PatchClaimStatus ns n ds) w =
     (None, w\<lparr>cl_claims := changeBy (\<lambda>x. rc_Name x = n \<and> rc_Namespace x = ns)
        (\<lambda>x. x\<lparr>rc_Devices := ds\<rparr>) (cl_claims w)\<rparr>)"
| "memApply (CreateRequest g ty m c n) w =
     (None, w\<lparr>cl_requests := cl_requests w @
        [\<lparr>req_Name = g @ showNat (length (cl_requests w)), req_Type = ty, req_Model = m,
          req_Size = c, req_TargetNode = n\<rparr>]\<rparr>)"

text \<open>Its time stamps are the nanoseconds in decimal notation.\<close>

definition parseStamp :: "string \<Rightarrow> string + gotime" where
  "parseStamp s =
     (let ds = (if s \<noteq> [] \<and> hd s = CHR ''-'' then tl s else s)
      in if ds = [] \<or> \<not> list_all isDigitChar ds then Inl ''cannot parse''
         else Inr (Nanos (if ds = s then int (digitsVal 0 ds) else - int (digitsVal 0 ds))))"

lemma parseStamp_showInt: "\<exists>u. parseStamp (showInt v) = Inr u"
proof -
  have "hd (showNat n) \<noteq> CHR ''-''" for n
    using showNat_digits [of n] isDigitChar_not_sign by (cases "showNat n") auto
  then show ?thesis using showNat_digits by (auto simp: parseStamp_def showInt_def Let_def)
qed

definition memEnv :: "DeviceInfo list \<Rightarrow> cluster env" where
  "memEnv infos =
     \<lparr>listComposabilityRequests = (\<lambda>w. (Inr (cl_requests w), w)),
      listComposableResources = (\<lambda>w. (Inr (cl_resources w), w)),
      listResourceSlices = (\<lambda>w. (Inr (cl_slices w), w)),
      listResourceClaims = (\<lambda>w. (Inr (cl_claims w), w)),
      listNodes = (\<lambda>w. (Inr (cl_nodes w), w)),
      getConfigMap = (\<lambda>_ _ w. (Inr (cl_config w), w)),
      getComposableResource = (\<lambda>n w. (lookupBy (\<lambda>x. cr_Name x = n) (cl_resources w), w)),
      getComposabilityRequest = (\<lambda>n w. (lookupBy (\<lambda>x. req_Name x = n) (cl_requests w), w)),
      getResourceClaim =
        (\<lambda>ns n w. (lookupBy (\<lambda>x. rc_Name x = n \<and> rc_Namespace x = ns) (cl_claims w), w)),
      apply_call = memApply,
      IsConflict = (\<lambda>e. e = ''conflict''),
      clock = (\<lambda>w. (cl_time w, w)),
      choice = (\<lambda>w. (cl_order w, w)),
      yamlDeviceInfos = (\<lambda>_. Inr infos),
      yamlInts = (\<lambda>_. Inr []),
      parseRFC3339 = parseStamp,
      formatRFC3339 = (\<lambda>t. showInt (nanos t)),
      unicodeLetter = (\<lambda>_. False),
      unicodeDigit = (\<lambda>_. False)\<rparr>"

lemmas memEnv_simps [simp] =
  arg_cong [OF memEnv_def, of listComposabilityRequests, simplified]
  arg_cong [OF memEnv_def, of listComposableResources, simplified]
  arg_cong [OF memEnv_def, of listResourceSlices, simplified]
  arg_cong [OF memEnv_def, of listResourceClaims, simplified]
  arg_cong [OF memEnv_def, of listNodes, simplified]
  arg_cong [OF memEnv_def, of getConfigMap, simplified]
  arg_cong [OF memEnv_def, of getComposableResource, simplified]
  arg_cong [OF memEnv_def, of getComposabilityRequest, simplified]
  arg_cong [OF memEnv_def, of getResourceClaim, simplified]
  arg_cong [OF memEnv_def, of apply_call, simplified]
  arg_cong [OF memEnv_def, of IsConflict, simplified]
  arg_cong [OF memEnv_def, of clock, simplified]
  arg_cong [OF memEnv_def, of choice, simplified]
  arg_cong [OF memEnv_def, of yamlDeviceInfos, simplified]
  arg_cong [OF memEnv_def, of yamlInts, simplified]
  arg_cong [OF memEnv_def, of parseRFC3339, simplified]
  arg_cong [OF memEnv_def, of formatRFC3339, simplified]
  arg_cong [OF memEnv_def, of unicodeLetter, simplified]
  arg_cong [OF memEnv_def, of unicodeDigit, simplified]

interpretation mem: quiet_api "memEnv infos" cl_claims cl_resources cl_requests for infos
proof unfold_locales
  fix c r w w'
  assume c: "marking_call c" and step: "apply_call (memEnv infos) c w = (r, w')"
  show "map resource_view (cl_resources w') = map resource_view (cl_resources w)"
    using c step by (cases c) (auto simp: changeBy_def resource_view_def)
  show "map rc_Allocation (cl_claims w') = map rc_Allocation (cl_claims w)"
    using c step by (cases c) (auto simp: changeBy_def)
qed auto

interpretation mem: frozen_api "memEnv infos" cl_claims cl_resources cl_requests for infos
proof unfold_locales
  fix c r w w'
  assume "marking_call c" "apply_call (memEnv infos) c w = (r, w')"
  then show "fst (clock (memEnv infos) w') = fst (clock (memEnv infos) w)" by (cases c) auto
qed

text \<open>The programs that read, run in the in-memory server.\<close>

lemma mem_reads [run_simps]:
  "readOp (\<lambda>w. (Inr (f w), w)) s = (Ok (f (wld s)), s)"
  "peekOp (\<lambda>w. (g w, w)) s = (Ok (g (wld s)), s)"
  by (simp_all add: readOp_def peekOp_def)

end
