(* ===== verification/Samples.thy ===== *)
theory Samples
  imports Cluster
begin

text \<open>
  A small cluster in the in-memory API server: three device models, of which two exclude each
  other, one node, and constructors for claims and resources. Properties with hypotheses are
  instantiated here, so that their hypotheses are seen to hold together.
\<close>

definition sampleDevice :: "int \<Rightarrow> string \<Rightarrow> string \<Rightarrow> int list \<Rightarrow> DeviceInfo" where
  "sampleDevice i model k8s bad =
     \<lparr>di_Index = i, di_CDIModelName = model, di_DRAAttributes = [], di_LabelKeyModel = [],
      di_DriverName = ''gpu.nvidia.com'', di_K8sDeviceName = k8s, di_CannotCoexistWith = bad\<rparr>"

definition sampleDevices :: "DeviceInfo list" where
  "sampleDevices =
     [sampleDevice 1 ''A40'' ''a40'' [2], sampleDevice 2 ''H100'' ''h100'' [1],
      sampleDevice 3 ''T4'' ''t4'' []]"

definition sampleSpec :: ComposableDRASpec where
  "sampleSpec = \<lparr>sp_DeviceInfos = sampleDevices, sp_LabelPrefix = ''co.hdi'', sp_FabricIDRange = []\<rparr>"

definition sampleLabels :: "(string \<times> string) list" where
  "sampleLabels = [(''co.hdi/a40-size-max'', ''2''), (''zone'', ''x''), (''co.hdi/a40-size-min'', ''1'')]"

definition sampleNode :: NodeInfo where
  "sampleNode =
     \<lparr>ni_Name = ''n1'',
      ni_Models = [\<lparr>mc_Model = ''A40'', mc_DeviceName = ''a40'', mc_MaxDevice = 2, mc_MinDevice = 1,
                    mc_MaxDeviceSet = True\<rparr>]\<rparr>"

text \<open>A slice of the node that lists two devices, as the API server and as the controller has it.\<close>

definition sampleSlice :: ResourceSlice where
  "sampleSlice =
     \<lparr>rs_Name = ''s1'', rs_CreationTimestamp = Nanos 1, rs_Driver = ''gpu.nvidia.com'',
      rs_NodeName = Some ''n1'', rs_PoolName = ''n1'',
      rs_Devices = [\<lparr>sd_Name = ''gpu-0'', sd_Attributes = [(''uuid'', Some ''GPU-0'')], sd_BindingConditions = []\<rparr>,
                    \<lparr>sd_Name = ''gpu-1'', sd_Attributes = [(''uuid'', Some ''GPU-1'')], sd_BindingConditions = []\<rparr>]\<rparr>"

definition sampleSliceInfo :: ResourceSliceInfo where
  "sampleSliceInfo =
     \<lparr>rsi_Name = ''s1'', rsi_NodeName = ''n1'', rsi_CreationTimestamp = Nanos 1,
      rsi_Driver = ''gpu.nvidia.com'',
      rsi_Devices = [\<lparr>rsd_Name = ''gpu-0'', rsd_UUID = ''GPU-0''\<rparr>, \<lparr>rsd_Name = ''gpu-1'', rsd_UUID = ''GPU-1''\<rparr>],
      rsi_Pool = ''n1''\<rparr>"

definition sampleResource :: "string \<Rightarrow> string \<Rightarrow> string \<Rightarrow> ComposableResource" where
  "sampleResource name model uuid =
     \<lparr>cr_Name = name, cr_Annotations = Map.empty, cr_CreationTimestamp = Nanos 100,
      cr_DeletionTimestamp = None, cr_Model = model, cr_TargetNode = ''n1'', cr_State = ''Online'',
      cr_DeviceID = uuid\<rparr>"

definition sampleAllocated :: "string \<Rightarrow> string \<Rightarrow> AllocationDevice" where
  "sampleAllocated pool device =
     \<lparr>dra_Driver = ''gpu.nvidia.com'', dra_Pool = pool, dra_Device = device,
      dra_BindingConditions = [''FabricDeviceReschedule''],
      dra_BindingFailureConditions = [''FabricDeviceFailed'']\<rparr>"

definition sampleClaim :: "string \<Rightarrow> int \<Rightarrow> string \<Rightarrow> ResourceClaim" where
  "sampleClaim name t pool =
     \<lparr>rc_Name = name, rc_Namespace = ''ns'', rc_CreationTimestamp = Nanos t, rc_ReservedFor = [''pod''],
      rc_Allocation = Some \<lparr>al_Results = [sampleAllocated pool ''device-0''],
        al_NodeSelector = Some [\<lparr>nst_MatchFields =
          [\<lparr>nsr_Key = ''metadata.name'', nsr_Operator = ''In'', nsr_Values = [''n1'']\<rparr>]\<rparr>]\<rparr>,
      rc_Devices = []\<rparr>"

definition sampleInfo :: "nat \<Rightarrow> string \<Rightarrow> int \<Rightarrow> string list \<Rightarrow> ResourceClaimInfo" where
  "sampleInfo arr name t models =
     \<lparr>rci_Name = name, rci_NodeName = ''n1'', rci_CreationTimestamp = Nanos t, rci_Namespace = ''ns'',
      rci_Devices = map (\<lambda>m. \<lparr>rcd_Name = ''device-0'', rcd_Model = m, rcd_State = ''Preparing'',
                              rcd_Driver = ''gpu.nvidia.com'', rcd_Pool = ''a40-fabric1''\<rparr>) models,
      rci_arr = arr\<rparr>"

definition sampleCluster :: "ResourceClaim list \<Rightarrow> ComposableResource list \<Rightarrow> ComposabilityRequest list \<Rightarrow> cluster" where
  "sampleCluster claims resources requests =
     \<lparr>cl_claims = claims, cl_slices = [sampleSlice], cl_resources = resources, cl_requests = requests,
      cl_nodes = [\<lparr>node_Name = ''n1'', node_Labels = sampleLabels\<rparr>],
      cl_config = [''device-info'' \<mapsto> ''yaml'', ''label-prefix'' \<mapsto> ''co.hdi''],
      cl_time = Nanos 1000, cl_order = []\<rparr>"

definition sampleState ::
    "ResourceClaim list \<Rightarrow> ComposableResource list \<Rightarrow> ComposabilityRequest list \<Rightarrow> (cluster, api_call) st" where
  "sampleState claims resources requests = \<lparr>wld = sampleCluster claims resources requests, calls = []\<rparr>"

lemmas sample_defs =
  sampleDevice_def sampleDevices_def sampleSpec_def sampleLabels_def sampleNode_def sampleSlice_def
  sampleSliceInfo_def sampleResource_def sampleAllocated_def sampleClaim_def sampleInfo_def
  sampleCluster_def sampleState_def

end
