(* ===== verification/InfoUtils.thy ===== *)
theory InfoUtils
  imports Samples
begin

text \<open>
  \<open>src/internal/utils/info_utils.go\<close>: reading the cluster. The configuration is read from a
  ConfigMap and validated; claims, slices and nodes are turned into the structs of
  \<open>internal/types\<close>.
\<close>

section \<open>Definitions\<close>

definition driverUUIDAttrMap :: "string \<Rightarrow> string" where
  "driverUUIDAttrMap d = (if d = ''gpu.nvidia.com'' then ''uuid'' else [])"

definition hasConditionWithStatus :: "Condition list \<Rightarrow> string \<Rightarrow> string \<Rightarrow> bool" where
  "hasConditionWithStatus conditions conditionType status \<longleftrightarrow>
     list_ex (\<lambda>c. cond_Type c = conditionType \<and> cond_Status c = status) conditions"

definition hasMatchingBindingCondition ::
    "Condition list \<Rightarrow> string list \<Rightarrow> string list \<Rightarrow> bool" where
  "hasMatchingBindingCondition conditions bindingConditions bindingFailureConditions =
     (if conditions = [] then False
      else let conditionSet = set bindingConditions \<union> set bindingFailureConditions
           in if conditionSet = {} then False
              else list_ex (\<lambda>c. cond_Type c \<in> conditionSet \<and> cond_Status c = ''True'') conditions)"

definition hasBindingConditions :: "ResourceSlice \<Rightarrow> bool" where
  "hasBindingConditions rs \<longleftrightarrow> list_ex (\<lambda>d. length (sd_BindingConditions d) > 0) (rs_Devices rs)"

text \<open>\<open>getNodeName\<close>: the first value of the first matching field; \<open>Values[0]\<close> of an empty list panics.\<close>

fun nodeNameOfFields :: "NodeSelectorRequirement list \<Rightarrow> string outcome option" where
  "nodeNameOfFields [] = None"
| "nodeNameOfFields (f # fs) =
     (if nsr_Key f = ''metadata.name'' \<and> nsr_Operator f = ''In''
      then Some (case nsr_Values f of [] \<Rightarrow> Panic ''index out of range'' | v # _ \<Rightarrow> Ok v)
      else nodeNameOfFields fs)"

fun getNodeName :: "NodeSelectorTerm list \<Rightarrow> string outcome" where
  "getNodeName [] = Ok []"
| "getNodeName (t # ts) =
     (case nodeNameOfFields (nst_MatchFields t) of Some r \<Rightarrow> r | None \<Rightarrow> getNodeName ts)"

definition getModelName :: "ComposableDRASpec \<Rightarrow> string \<Rightarrow> string outcome" where
  "getModelName spec deviceName =
     (case find (\<lambda>d. di_K8sDeviceName d = deviceName) (sp_DeviceInfos spec) of
        Some d \<Rightarrow> Ok (di_CDIModelName d)
      | None \<Rightarrow> Fail (Msg (''unknown device name: '' @ deviceName)))"

text \<open>The model of an allocated device: lines 76 to 102 of \<open>GetResourceClaimInfo\<close>.\<close>

definition sliceListsDevice :: "ResourceSlice list \<Rightarrow> AllocationDevice \<Rightarrow> bool" where
  "sliceListsDevice slices a \<longleftrightarrow>
     list_ex (\<lambda>rs. rs_Driver rs = dra_Driver a \<and> rs_PoolName rs = dra_Pool a \<and>
                   list_ex (\<lambda>d. sd_Name d = dra_Device a) (rs_Devices rs)) slices"

definition resolveModel ::
    "ComposableDRASpec \<Rightarrow> ResourceSlice list \<Rightarrow> AllocationDevice \<Rightarrow> string outcome" where
  "resolveModel spec slices a =
     (let deviceName = stripFabric (dra_Pool a)
      in outcome_bind
           (if sliceListsDevice slices a then getModelName spec deviceName else Ok [])
           (\<lambda>model. Ok (if model = []
                        then (case getModelName spec deviceName of Ok m \<Rightarrow> m | _ \<Rightarrow> [])
                        else model)))"

text \<open>The state of an allocated device: lines 104 to 120.\<close>

fun statusStep :: "AllocationDevice \<Rightarrow> string \<Rightarrow> AllocatedDeviceStatus \<Rightarrow> string" where
  "statusStep a st d =
     (if ads_Device d = dra_Device a
      then (case ads_Conditions d of
              None \<Rightarrow> st
            | Some cs \<Rightarrow>
                if hasConditionWithStatus cs ''FabricDeviceReschedule'' ''True'' then ''Reschedule''
                else if hasConditionWithStatus cs ''FabricDeviceFailed'' ''True'' then ''Failed''
                else if \<not> hasMatchingBindingCondition cs (dra_BindingConditions a)
                          (dra_BindingFailureConditions a) then ''Preparing''
                else st)
      else st)"

definition deviceState :: "AllocatedDeviceStatus list \<Rightarrow> AllocationDevice \<Rightarrow> string" where
  "deviceState devs a =
     (if devs = [] then ''Preparing'' else foldl (statusStep a) [] devs)"

definition claimDevice ::
    "ComposableDRASpec \<Rightarrow> ResourceSlice list \<Rightarrow> ResourceClaim \<Rightarrow> AllocationDevice
       \<Rightarrow> ResourceClaimDevice outcome" where
  "claimDevice spec slices rc a =
     outcome_bind (resolveModel spec slices a) (\<lambda>model.
       Ok \<lparr>rcd_Name = dra_Device a, rcd_Model = model, rcd_State = deviceState (rc_Devices rc) a,
           rcd_Driver = dra_Driver a, rcd_Pool = dra_Pool a\<rparr>)"

definition claimInfo ::
    "ComposableDRASpec \<Rightarrow> ResourceSlice list \<Rightarrow> nat \<Rightarrow> ResourceClaim
       \<Rightarrow> ResourceClaimInfo option outcome" where
  "claimInfo spec slices arr rc =
     (case rc_Allocation rc of
        None \<Rightarrow> Ok None
      | Some al \<Rightarrow>
          if rc_ReservedFor rc = [] then Ok None
          else outcome_bind
            (mapO (claimDevice spec slices rc)
                  (filter (\<lambda>a. dra_BindingConditions a \<noteq> []) (al_Results al)))
            (\<lambda>devices.
               if devices = [] then Ok None
               else outcome_bind
                 (case al_NodeSelector al of None \<Rightarrow> Ok [] | Some sel \<Rightarrow> getNodeName sel)
                 (\<lambda>nodeName.
                    Ok (Some \<lparr>rci_Name = rc_Name rc, rci_NodeName = nodeName,
                              rci_CreationTimestamp = rc_CreationTimestamp rc,
                              rci_Namespace = rc_Namespace rc,
                              rci_Devices = devices, rci_arr = arr\<rparr>))))"

text \<open>The loop over the claims; each appended struct has a device array of its own.\<close>

fun claimInfos ::
    "ComposableDRASpec \<Rightarrow> ResourceSlice list \<Rightarrow> nat \<Rightarrow> ResourceClaim list
       \<Rightarrow> ResourceClaimInfo list outcome" where
  "claimInfos spec slices n [] = Ok []"
| "claimInfos spec slices n (rc # rcs) =
     outcome_bind (claimInfo spec slices n rc) (\<lambda>r.
       case r of
         None \<Rightarrow> claimInfos spec slices n rcs
       | Some i \<Rightarrow> outcome_bind (claimInfos spec slices (Suc n) rcs) (\<lambda>is. Ok (i # is)))"

definition GetResourceClaimInfo ::
    "'w env \<Rightarrow> ComposableDRASpec \<Rightarrow> ('w, ResourceClaimInfo list) io" where
  "GetResourceClaimInfo E spec =
     andThen (wrapErr ''failed to list ResourceClaims'' (readOp (listResourceClaims E))) (\<lambda>claims.
     andThen (wrapErr ''failed to list ResourceSlices'' (readOp (listResourceSlices E))) (\<lambda>slices.
     lift (claimInfos spec slices 0 claims)))"

text \<open>
  \<open>GetResourceSliceInfo\<close>. The attribute whose name is configured for the driver gives the UUID;
  dereferencing an attribute that has no string value panics.
\<close>

fun uuidOf :: "string \<Rightarrow> string \<Rightarrow> (string \<times> string option) list \<Rightarrow> string outcome" where
  "uuidOf driver uuid [] = Ok uuid"
| "uuidOf driver uuid ((attrName, attrValue) # as) =
     (if driverUUIDAttrMap driver = attrName
      then (case attrValue of
              None \<Rightarrow> Panic ''nil pointer dereference''
            | Some v \<Rightarrow> uuidOf driver v as)
      else uuidOf driver uuid as)"

definition sliceDevice :: "string \<Rightarrow> SliceDevice \<Rightarrow> ResourceSliceDevice outcome" where
  "sliceDevice driver d =
     outcome_bind (uuidOf driver [] (sd_Attributes d)) (\<lambda>uuid.
       Ok \<lparr>rsd_Name = sd_Name d, rsd_UUID = uuid\<rparr>)"

definition sliceInfo :: "ResourceSlice \<Rightarrow> ResourceSliceInfo option outcome" where
  "sliceInfo rs =
     (if rs_Devices rs = [] then Ok None
      else if hasBindingConditions rs then Ok None
      else case rs_NodeName rs of
             None \<Rightarrow> Ok None
           | Some nodeName \<Rightarrow>
               outcome_bind (mapO (sliceDevice (rs_Driver rs)) (rs_Devices rs)) (\<lambda>devices.
                 Ok (Some \<lparr>rsi_Name = rs_Name rs, rsi_NodeName = nodeName,
                           rsi_CreationTimestamp = rs_CreationTimestamp rs,
                           rsi_Driver = rs_Driver rs, rsi_Devices = devices,
                           rsi_Pool = rs_PoolName rs\<rparr>)))"

fun sliceInfos :: "ResourceSlice list \<Rightarrow> ResourceSliceInfo list outcome" where
  "sliceInfos [] = Ok []"
| "sliceInfos (rs # rss) =
     outcome_bind (sliceInfo rs) (\<lambda>r. outcome_bind (sliceInfos rss) (\<lambda>is.
       Ok (case r of None \<Rightarrow> is | Some i \<Rightarrow> i # is)))"

definition GetResourceSliceInfo :: "'w env \<Rightarrow> ('w, ResourceSliceInfo list) io" where
  "GetResourceSliceInfo E =
     andThen (wrapErr ''failed to list ResourceSlices'' (readOp (listResourceSlices E))) (\<lambda>slices.
     lift (sliceInfos slices))"

text \<open>
  \<open>processNodeInfo\<close>. A label \<open>prefix/name-size-max\<close> or \<open>prefix/name-size-min\<close> sets a limit for
  the device \<open>name\<close> of the configuration. The loop over \<open>nodeInfo.Models\<close> updates the first entry
  with that device name, or appends one. (The maps \<open>maxDeviceSet\<close> and \<open>minDeviceSet\<close> of the
  source are written and never read.)
\<close>

fun setMax :: "string \<Rightarrow> string \<Rightarrow> int \<Rightarrow> ModelConstraints list \<Rightarrow> ModelConstraints list" where
  "setMax deviceName model m [] =
     [\<lparr>mc_Model = model, mc_DeviceName = deviceName, mc_MaxDevice = m, mc_MinDevice = 0,
       mc_MaxDeviceSet = True\<rparr>]"
| "setMax deviceName model m (c # cs) =
     (if mc_DeviceName c = deviceName
      then c\<lparr>mc_MaxDevice := m, mc_Model := model, mc_MaxDeviceSet := True\<rparr> # cs
      else c # setMax deviceName model m cs)"

fun setMin :: "string \<Rightarrow> string \<Rightarrow> int \<Rightarrow> ModelConstraints list \<Rightarrow> ModelConstraints list" where
  "setMin deviceName model m [] =
     [\<lparr>mc_Model = model, mc_DeviceName = deviceName, mc_MaxDevice = 0, mc_MinDevice = m,
       mc_MaxDeviceSet = False\<rparr>]"
| "setMin deviceName model m (c # cs) =
     (if mc_DeviceName c = deviceName
      then c\<lparr>mc_MinDevice := m, mc_Model := model\<rparr> # cs
      else c # setMin deviceName model m cs)"

definition labelStep ::
    "ComposableDRASpec \<Rightarrow> string \<times> string \<Rightarrow> ModelConstraints list
       \<Rightarrow> ModelConstraints list outcome" where
  "labelStep spec kv models =
     (let prefix = sp_LabelPrefix spec @ ''/''; key = fst kv; val = snd kv
      in if \<not> HasPrefix key prefix then Ok models
         else
           let suffix = drop (length prefix) key
           in if HasSuffix suffix ''-size-max'' then
                outcome_bind (outcome_wrap (''invalid integer in '' @ val) (Atoi val)) (\<lambda>max.
                let deviceName = take (length suffix - 9) suffix
                in outcome_bind (getModelName spec deviceName) (\<lambda>model.
                   Ok (setMax deviceName model max models)))
              else if HasSuffix suffix ''-size-min'' then
                outcome_bind (outcome_wrap (''invalid integer in '' @ val) (Atoi val)) (\<lambda>min.
                let deviceName = take (length suffix - 9) suffix
                in outcome_bind (getModelName spec deviceName) (\<lambda>model.
                   Ok (setMin deviceName model min models)))
              else Ok models)"

fun labelLoop ::
    "ComposableDRASpec \<Rightarrow> (string \<times> string) list \<Rightarrow> ModelConstraints list
       \<Rightarrow> ModelConstraints list outcome" where
  "labelLoop spec [] models = Ok models"
| "labelLoop spec (kv # kvs) models =
     outcome_bind (labelStep spec kv models) (labelLoop spec kvs)"

definition nodeInfo :: "ComposableDRASpec \<Rightarrow> Node \<Rightarrow> NodeInfo outcome" where
  "nodeInfo spec node =
     outcome_bind (labelLoop spec (node_Labels node) []) (\<lambda>models.
       Ok \<lparr>ni_Name = node_Name node, ni_Models = models\<rparr>)"

definition processNodeInfo :: "ComposableDRASpec \<Rightarrow> Node list \<Rightarrow> NodeInfo list outcome" where
  "processNodeInfo spec nodes = mapO (nodeInfo spec) nodes"

definition GetNodeInfo :: "'w env \<Rightarrow> ComposableDRASpec \<Rightarrow> ('w, NodeInfo list) io" where
  "GetNodeInfo E spec =
     andThen (wrapErr ''failed to list Nodes'' (readOp (listNodes E))) (\<lambda>nodes.
     lift (processNodeInfo spec nodes))"

text \<open>
  Validation of the configuration. The first and the last byte are converted to a rune each;
  the loop runs over the runes of the string.
\<close>

definition letterOrDigit :: "'w env \<Rightarrow> nat \<Rightarrow> bool" where
  "letterOrDigit E r \<longleftrightarrow> IsLetter (unicodeLetter E) r \<or> IsDigit (unicodeDigit E) r"

definition validateDNSLabel :: "'w env \<Rightarrow> string \<Rightarrow> nat \<Rightarrow> unit outcome" where
  "validateDNSLabel E name maxLength =
     (if length name = 0 then Fail (Msg ''cannot be empty'')
      else if length name > maxLength then Fail (Msg ''exceeds character limit'')
      else if \<not> letterOrDigit E (of_char (hd name)) then Fail (Msg ''must start with letter or digit'')
      else if \<not> letterOrDigit E (of_char (last name)) then Fail (Msg ''must end with letter or digit'')
      else if \<not> list_all (\<lambda>c. letterOrDigit E c \<or> c = 45) (runes name)
           then Fail (Msg ''contains invalid character'')
      else Ok ())"

fun prefixRunes :: "'w env \<Rightarrow> nat \<Rightarrow> nat list \<Rightarrow> bool" where
  "prefixRunes E prev [] = True"
| "prefixRunes E prev (c # cs) =
     (if \<not> (letterOrDigit E c \<or> c = 46 \<or> c = 45) then False
      else if c = 46 \<and> prev = 46 then False
      else prefixRunes E c cs)"

definition isValidLabelNamePrefix :: "'w env \<Rightarrow> string \<Rightarrow> bool" where
  "isValidLabelNamePrefix E s =
     (if length s > 100 then False
      else if s = [] then False
      else if \<not> letterOrDigit E (of_char (hd s)) then False
      else if \<not> letterOrDigit E (of_char (last s)) then False
      else prefixRunes E 0 (runes s))"

definition validateOne :: "'w env \<Rightarrow> DeviceInfo \<Rightarrow> unit outcome" where
  "validateOne E info =
     (if di_Index info < 0 \<or> di_Index info > 10000
      then Fail (Msg ''index must be between 0 and 10000'')
      else if length (di_CDIModelName info) > 1024
      then Fail (Msg ''cdi-model-name exceeds 1KB limit'')
      else if length (di_DriverName info) > 1024
      then Fail (Msg ''driver-name exceeds 1KB limit'')
      else outcome_bind
        (outcome_wrap ''k8s-device-name invalid'' (validateDNSLabel E (di_K8sDeviceName info) 50))
        (\<lambda>_. if length (di_CannotCoexistWith info) > 100
             then Fail (Msg ''cannot-coexist-with exceeds 100 item limit'')
             else Ok ()))"

fun validateDeviceInfo :: "'w env \<Rightarrow> DeviceInfo list \<Rightarrow> unit outcome" where
  "validateDeviceInfo E [] = Ok ()"
| "validateDeviceInfo E (info # infos) =
     outcome_bind (validateOne E info) (\<lambda>_. validateDeviceInfo E infos)"

text \<open>A missing key of \<open>configMap.Data\<close> reads as the empty string.\<close>

definition dataValue :: "(string \<rightharpoonup> string) \<Rightarrow> string \<Rightarrow> string" where
  "dataValue m k = (case m k of None \<Rightarrow> [] | Some v \<Rightarrow> v)"

definition parseWith :: "(string \<Rightarrow> string + 'a) \<Rightarrow> string \<Rightarrow> 'a outcome" where
  "parseWith f s = (case f s of Inl e \<Rightarrow> Fail (Msg e) | Inr x \<Rightarrow> Ok x)"

definition composableDRASpecOf :: "'w env \<Rightarrow> (string \<rightharpoonup> string) \<Rightarrow> ComposableDRASpec outcome" where
  "composableDRASpecOf E m =
     outcome_bind (outcome_wrap ''failed to parse device-info''
       (parseWith (yamlDeviceInfos E) (dataValue m ''device-info''))) (\<lambda>infos.
     outcome_bind (outcome_wrap ''invalid device-info'' (validateDeviceInfo E infos)) (\<lambda>_.
     let labelPrefix = dataValue m ''label-prefix''
     in if \<not> isValidLabelNamePrefix E labelPrefix
        then Fail (Msg (''invalid label prefix: '' @ labelPrefix))
        else
          outcome_bind (outcome_wrap ''failed to parse fabric-id-range''
            (parseWith (yamlInts E) (dataValue m ''fabric-id-range''))) (\<lambda>fabric.
          if length fabric > 100 then Fail (Msg ''fabric-id-range exceeds 100 item limit'')
          else Ok \<lparr>sp_DeviceInfos = infos, sp_LabelPrefix = labelPrefix,
                   sp_FabricIDRange = fabric\<rparr>)))"

definition GetConfigMapInfo :: "'w env \<Rightarrow> ('w, ComposableDRASpec) io" where
  "GetConfigMapInfo E =
     andThen (wrapErr ''failed to get ConfigMap''
       (readOp (getConfigMap E ''composable-dra'' ''composable-dra-dds''))) (\<lambda>m.
     lift (composableDRASpecOf E m))"

section \<open>Devices of the configuration\<close>

lemma getModelName_Ok:
  "getModelName spec d = Ok m \<Longrightarrow>
     \<exists>info\<in>set (sp_DeviceInfos spec). di_K8sDeviceName info = d \<and> di_CDIModelName info = m"
  by (auto simp: getModelName_def find_Some_iff split: option.splits)

lemma getModelName_distinct:
  assumes "distinct (map di_K8sDeviceName (sp_DeviceInfos spec))"
    and "info \<in> set (sp_DeviceInfos spec)"
  shows "getModelName spec (di_K8sDeviceName info) = Ok (di_CDIModelName info)"
proof -
  have "find (\<lambda>d. di_K8sDeviceName d = di_K8sDeviceName info) xs = Some info"
    if "distinct (map di_K8sDeviceName xs)" "info \<in> set xs" for xs
    using that by (induction xs) (auto simp: rev_image_eqI)
  then show ?thesis using assms by (simp add: getModelName_def)
qed

section \<open>Node limits\<close>

text \<open>
  The reference: the limits of a device name are read off the labels by looking up the two
  label keys, whatever the order of the labels.
\<close>

definition limitKey :: "ComposableDRASpec \<Rightarrow> string \<Rightarrow> string \<Rightarrow> string" where
  "limitKey spec d kind = sp_LabelPrefix spec @ ''/'' @ d @ kind"

definition labelInt :: "ComposableDRASpec \<Rightarrow> (string \<times> string) list \<Rightarrow> string \<Rightarrow> string \<Rightarrow> int option" where
  "labelInt spec labels d kind =
     (case map_of labels (limitKey spec d kind) of
        None \<Rightarrow> None
      | Some v \<Rightarrow> (case Atoi v of Ok n \<Rightarrow> Some n | _ \<Rightarrow> None))"

definition orElse :: "'a option \<Rightarrow> 'a \<Rightarrow> 'a" where
  "orElse x d = (case x of None \<Rightarrow> d | Some v \<Rightarrow> v)"

definition expectedConstraint ::
    "ComposableDRASpec \<Rightarrow> (string \<times> string) list \<Rightarrow> string \<Rightarrow> ModelConstraints option" where
  "expectedConstraint spec labels d =
     (let mx = labelInt spec labels d ''-size-max''; mn = labelInt spec labels d ''-size-min''
      in if mx = None \<and> mn = None then None
         else Some \<lparr>mc_Model = (case getModelName spec d of Ok m \<Rightarrow> m | _ \<Rightarrow> []),
                    mc_DeviceName = d, mc_MaxDevice = orElse mx 0, mc_MinDevice = orElse mn 0,
                    mc_MaxDeviceSet = (mx \<noteq> None)\<rparr>)"

abbreviation constraintFor :: "ModelConstraints list \<Rightarrow> string \<Rightarrow> ModelConstraints option" where
  "constraintFor models d \<equiv> find (\<lambda>c. mc_DeviceName c = d) models"

lemma constraintFor_setMax:
  "constraintFor (setMax d model m models) e =
     (if e = d
      then Some (case constraintFor models d of
             None \<Rightarrow> \<lparr>mc_Model = model, mc_DeviceName = d, mc_MaxDevice = m, mc_MinDevice = 0,
                      mc_MaxDeviceSet = True\<rparr>
           | Some c \<Rightarrow> c\<lparr>mc_MaxDevice := m, mc_Model := model, mc_MaxDeviceSet := True\<rparr>)
      else constraintFor models e)"
  by (induction models) auto

lemma constraintFor_setMin:
  "constraintFor (setMin d model m models) e =
     (if e = d
      then Some (case constraintFor models d of
             None \<Rightarrow> \<lparr>mc_Model = model, mc_DeviceName = d, mc_MaxDevice = 0, mc_MinDevice = m,
                      mc_MaxDeviceSet = False\<rparr>
           | Some c \<Rightarrow> c\<lparr>mc_MinDevice := m, mc_Model := model\<rparr>)
      else constraintFor models e)"
  by (induction models) auto

lemma set_names_setMax: "set (map mc_DeviceName (setMax d model m models)) = insert d (set (map mc_DeviceName models))"
  by (induction models) auto

lemma set_names_setMin: "set (map mc_DeviceName (setMin d model m models)) = insert d (set (map mc_DeviceName models))"
  by (induction models) auto

lemma distinct_setMax:
  "distinct (map mc_DeviceName models) \<Longrightarrow> distinct (map mc_DeviceName (setMax d model m models))"
  by (induction models) (use set_names_setMax in auto)

lemma distinct_setMin:
  "distinct (map mc_DeviceName models) \<Longrightarrow> distinct (map mc_DeviceName (setMin d model m models))"
  by (induction models) (use set_names_setMin in auto)

text \<open>The effect of one label, by the form of its key.\<close>

lemma labelStep_cases:
  assumes "labelStep spec (k, v) models = Ok models'"
  obtains (max) d n model where "k = limitKey spec d ''-size-max''" "Atoi v = Ok n"
      "getModelName spec d = Ok model" "models' = setMax d model n models"
  | (min) d n model where "k = limitKey spec d ''-size-min''" "Atoi v = Ok n"
      "getModelName spec d = Ok model" "models' = setMin d model n models"
  | (other) "models' = models" "\<And>d. k \<noteq> limitKey spec d ''-size-max''"
      "\<And>d. k \<noteq> limitKey spec d ''-size-min''"
proof -
  let ?p = "sp_LabelPrefix spec @ ''/''"
  show thesis
  proof (cases "HasPrefix k ?p")
    case False
    then have "k \<noteq> limitKey spec d kind" for d kind
      by (auto simp: HasPrefix_iff limitKey_def)
    moreover have "models' = models" using False assms by (simp add: labelStep_def)
    ultimately show thesis by (intro other) auto
  next
    case True
    then obtain suffix where k: "k = ?p @ suffix" by (auto simp: HasPrefix_iff)
    have key: "k = limitKey spec d kind \<longleftrightarrow> suffix = d @ kind" for d kind
      by (simp add: k limitKey_def)
    consider (mx) d where "suffix = d @ ''-size-max''" | (mn) d where "suffix = d @ ''-size-min''"
      | (no) "\<not> HasSuffix suffix ''-size-max''" "\<not> HasSuffix suffix ''-size-min''"
      by (auto simp: HasSuffix_iff)
    then show thesis
    proof cases
      case mx
      with assms k key show thesis
        by (auto simp: labelStep_def Let_def HasPrefix_def HasSuffix_def intro: max)
    next
      case mn
      with assms k key show thesis
        by (auto simp: labelStep_def Let_def HasPrefix_def HasSuffix_def intro: min)
    next
      case no
      with assms k have "models' = models"
        by (simp add: labelStep_def Let_def HasPrefix_def)
      with no key show thesis by (intro other) (auto simp: HasSuffix_iff)
    qed
  qed
qed

lemma limitKey_inj [simp]:
  "limitKey spec d kind = limitKey spec e kind \<longleftrightarrow> d = e"
  "limitKey spec d ''-size-max'' \<noteq> limitKey spec e ''-size-min''"
  "limitKey spec d ''-size-min'' \<noteq> limitKey spec e ''-size-max''"
  by (simp_all add: limitKey_def append_eq_append_conv2)

lemma labelInt_snoc:
  "fst kv \<notin> fst ` set labels \<Longrightarrow>
   labelInt spec (labels @ [kv]) d kind =
     (if fst kv = limitKey spec d kind
      then (case Atoi (snd kv) of Ok n \<Rightarrow> Some n | _ \<Rightarrow> None) else labelInt spec labels d kind)"
  by (cases kv) (auto simp: labelInt_def map_add_def dest: map_of_SomeD split: option.splits
      intro: rev_image_eqI)

lemma labelLoop_snoc:
  "labelLoop spec (labels @ [kv]) models =
     outcome_bind (labelLoop spec labels models) (labelStep spec kv)"
proof (induction labels arbitrary: models)
  case Nil
  show ?case by (cases "labelStep spec kv models") auto
next
  case (Cons l ls)
  then show ?case by (cases "labelStep spec l models") auto
qed

lemma expectedConstraint_step:
  assumes inv: "\<And>d. constraintFor models d = expectedConstraint spec labels d"
    and new: "fst kv \<notin> fst ` set labels"
    and step: "labelStep spec kv models = Ok models'"
  shows "constraintFor models' d = expectedConstraint spec (labels @ [kv]) d"
proof -
  obtain k v where kv: "kv = (k, v)" by (cases kv)
  note snoc = labelInt_snoc [OF new, unfolded kv fst_conv snd_conv]
  from step [unfolded kv] show ?thesis
  proof (cases rule: labelStep_cases)
    case (max d' n model)
    then show ?thesis
      by (cases "d = d'") (simp_all add: constraintFor_setMax inv expectedConstraint_def
          snoc [unfolded max(1)] Let_def kv orElse_def)
  next
    case (min d' n model)
    then show ?thesis
      by (cases "d = d'") (simp_all add: constraintFor_setMin inv expectedConstraint_def
          snoc [unfolded min(1)] Let_def kv orElse_def)
  next
    case other
    then show ?thesis
      by (simp add: inv expectedConstraint_def snoc Let_def kv)
  qed
qed

lemma labelStep_distinct:
  "labelStep spec kv models = Ok models' \<Longrightarrow> distinct (map mc_DeviceName models) \<Longrightarrow>
   distinct (map mc_DeviceName models')"
  by (cases kv, simp, erule labelStep_cases) (auto simp: distinct_setMax distinct_setMin)

lemma labelLoop_expected:
  "distinct (map fst labels) \<Longrightarrow> labelLoop spec labels [] = Ok models \<Longrightarrow>
   distinct (map mc_DeviceName models) \<and>
   (\<forall>d. constraintFor models d = expectedConstraint spec labels d)"
proof (induction labels arbitrary: models rule: rev_induct)
  case Nil
  then show ?case by (auto simp: expectedConstraint_def labelInt_def)
next
  case (snoc kv labels)
  from snoc.prems obtain mid where mid: "labelLoop spec labels [] = Ok mid"
    and step: "labelStep spec kv mid = Ok models" by (auto simp: labelLoop_snoc)
  from snoc.IH [OF _ mid] snoc.prems(1) have IH: "distinct (map mc_DeviceName mid)"
    "\<And>d. constraintFor mid d = expectedConstraint spec labels d" by auto
  from snoc.prems(1) have "fst kv \<notin> fst ` set labels" by auto
  from expectedConstraint_step [OF IH(2) this step] labelStep_distinct [OF step IH(1)]
  show ?case by blast
qed

text \<open>The loop fails only on a limit label, and never panics.\<close>

lemma getModelName_no_Panic [simp]: "getModelName spec d \<noteq> Panic p"
  by (auto simp: getModelName_def split: option.splits)

lemma labelStep_no_Panic [simp]: "labelStep spec kv models \<noteq> Panic p"
  by (simp add: labelStep_def Let_def)

lemma labelLoop_no_Panic [simp]: "labelLoop spec labels models \<noteq> Panic p"
  by (induction labels arbitrary: models) auto

text \<open>Whether a label is accepted does not depend on the labels before it.\<close>

definition labelOk :: "ComposableDRASpec \<Rightarrow> string \<times> string \<Rightarrow> bool" where
  "labelOk spec kv \<longleftrightarrow> (\<exists>models. labelStep spec kv [] = Ok models)"

lemma labelStep_Ok_iff: "(\<exists>m. labelStep spec kv models = Ok m) \<longleftrightarrow> labelOk spec kv"
  by (auto simp: labelOk_def labelStep_def Let_def)

lemma labelLoop_Ok_iff: "(\<exists>m. labelLoop spec labels models = Ok m) \<longleftrightarrow> list_all (labelOk spec) labels"
proof (induction labels arbitrary: models)
  case (Cons kv labels)
  show ?case
  proof (cases "labelStep spec kv models")
    case (Ok m)
    then have "labelOk spec kv" using labelStep_Ok_iff by blast
    with Ok Cons show ?thesis by simp
  qed (use labelStep_Ok_iff [of spec kv models] in auto)
qed simp

lemma expectedConstraint_perm:
  assumes "distinct (map fst labels)" and "mset labels' = mset labels"
  shows "expectedConstraint spec labels' d = expectedConstraint spec labels d"
proof -
  have "distinct (map fst labels')"
    using assms by (metis mset_eq_imp_distinct_iff mset_map)
  moreover have "set labels' = set labels" using assms(2) by (metis set_mset_mset)
  ultimately have "map_of labels' = map_of labels"
    using assms(1) by (simp add: map_of_inject_set)
  then show ?thesis by (simp add: expectedConstraint_def labelInt_def)
qed

section \<open>The configuration\<close>

definition noSlash :: "string \<Rightarrow> bool" where
  "noSlash s \<longleftrightarrow> CHR ''/'' \<notin> set s"

text \<open>What validation guarantees of an accepted configuration.\<close>

definition wf_device :: "DeviceInfo \<Rightarrow> bool" where
  "wf_device i \<longleftrightarrow>
     0 \<le> di_Index i \<and> di_Index i \<le> 10000 \<and>
     length (di_CDIModelName i) \<le> 1024 \<and> length (di_DriverName i) \<le> 1024 \<and>
     di_K8sDeviceName i \<noteq> [] \<and> length (di_K8sDeviceName i) \<le> 50 \<and> noSlash (di_K8sDeviceName i) \<and>
     length (di_CannotCoexistWith i) \<le> 100"

definition wf_spec :: "ComposableDRASpec \<Rightarrow> bool" where
  "wf_spec spec \<longleftrightarrow>
     list_all wf_device (sp_DeviceInfos spec) \<and>
     sp_LabelPrefix spec \<noteq> [] \<and> length (sp_LabelPrefix spec) \<le> 100 \<and> noSlash (sp_LabelPrefix spec) \<and>
     length (sp_FabricIDRange spec) \<le> 100"

lemma noSlash_runes:
  assumes "\<And>r. r \<in> set (runes s) \<Longrightarrow> r \<noteq> 47"
  shows "noSlash s"
proof -
  have "of_char (CHR ''/'') = (47::nat)" by simp
  then show ?thesis using assms ascii_in_runes [of "CHR ''/''" s] by (force simp: noSlash_def)
qed

lemma letterOrDigit_47 [simp]: "\<not> letterOrDigit E 47"
  by (simp add: letterOrDigit_def IsLetter_def IsDigit_def)

lemma validateDNSLabel_Ok:
  "validateDNSLabel E name n = Ok u \<Longrightarrow> name \<noteq> [] \<and> length name \<le> n \<and> noSlash name"
  by (auto simp: validateDNSLabel_def list_all_iff split: if_splits intro!: noSlash_runes)

lemma prefixRunes_no_slash: "prefixRunes E prev cs \<Longrightarrow> r \<in> set cs \<Longrightarrow> r \<noteq> 47"
  by (induction E prev cs rule: prefixRunes.induct) (auto split: if_splits)

lemma isValidLabelNamePrefix_wf:
  "isValidLabelNamePrefix E s \<Longrightarrow> s \<noteq> [] \<and> length s \<le> 100 \<and> noSlash s"
  by (auto simp: isValidLabelNamePrefix_def split: if_splits intro!: noSlash_runes
      dest: prefixRunes_no_slash)

lemma validateOne_Ok: "validateOne E i = Ok u \<Longrightarrow> wf_device i"
  by (auto simp: validateOne_def wf_device_def split: if_splits dest: validateDNSLabel_Ok)

lemma validateDeviceInfo_Ok: "validateDeviceInfo E infos = Ok u \<Longrightarrow> list_all wf_device infos"
  by (induction infos arbitrary: u) (auto dest: validateOne_Ok)

lemma composableDRASpecOf_wf: "composableDRASpecOf E m = Ok spec \<Longrightarrow> wf_spec spec"
  by (auto simp: composableDRASpecOf_def Let_def wf_spec_def not_less split: if_splits
      dest!: validateDeviceInfo_Ok dest: isValidLabelNamePrefix_wf)

text \<open>The labels that the controller manages are told apart by the device name.\<close>

definition asciiAlnum :: "char \<Rightarrow> bool" where
  "asciiAlnum c \<longleftrightarrow>
     (let n = (of_char c :: nat)
      in (48 \<le> n \<and> n \<le> 57) \<or> (65 \<le> n \<and> n \<le> 90) \<or> (97 \<le> n \<and> n \<le> 122))"

lemma letterOrDigit_ascii:
  "(of_char c :: nat) < 128 \<Longrightarrow> letterOrDigit E (of_char c) \<longleftrightarrow> asciiAlnum c"
  by (auto simp: letterOrDigit_def IsLetter_def IsDigit_def asciiAlnum_def Let_def)

section \<open>Claims and slices\<close>

text \<open>The claims that the controller follows: reserved, allocated, with a device that has binding conditions.\<close>

definition boundResults :: "ResourceClaim \<Rightarrow> AllocationDevice list" where
  "boundResults rc =
     (case rc_Allocation rc of
        None \<Rightarrow> []
      | Some al \<Rightarrow> filter (\<lambda>a. dra_BindingConditions a \<noteq> []) (al_Results al))"

definition tracked :: "ResourceClaim \<Rightarrow> bool" where
  "tracked rc \<longleftrightarrow> rc_ReservedFor rc \<noteq> [] \<and> boundResults rc \<noteq> []"

definition claimStates :: "string set" where
  "claimStates = {[], ''Preparing'', ''Reschedule'', ''Failed''}"

text \<open>
  What the record of a claim says: the model of a device is the one that the configuration gives for the
  name of its pool without the fabric suffix, empty when there is none; the node is the first value of
  the first node-name field of the allocation's selector.
\<close>

definition poolModel :: "ComposableDRASpec \<Rightarrow> string \<Rightarrow> string" where
  "poolModel spec pool = (case getModelName spec (stripFabric pool) of Ok m \<Rightarrow> m | _ \<Rightarrow> [])"

definition selectedNode :: "NodeSelectorTerm list \<Rightarrow> string" where
  "selectedNode terms =
     (case find (\<lambda>f. nsr_Key f = ''metadata.name'' \<and> nsr_Operator f = ''In'') (concat (map nst_MatchFields terms)) of
        None \<Rightarrow> [] | Some f \<Rightarrow> hd (nsr_Values f))"

definition claimNode :: "ResourceClaim \<Rightarrow> string" where
  "claimNode rc =
     (case rc_Allocation rc of
        None \<Rightarrow> []
      | Some al \<Rightarrow> (case al_NodeSelector al of None \<Rightarrow> [] | Some terms \<Rightarrow> selectedNode terms))"

definition describesDevice ::
    "ComposableDRASpec \<Rightarrow> ResourceClaim \<Rightarrow> AllocationDevice \<Rightarrow> ResourceClaimDevice \<Rightarrow> bool" where
  "describesDevice spec rc a d \<longleftrightarrow>
     rcd_Name d = dra_Device a \<and> rcd_Driver d = dra_Driver a \<and> rcd_Pool d = dra_Pool a \<and>
     rcd_State d = deviceState (rc_Devices rc) a \<and> rcd_Model d = poolModel spec (dra_Pool a)"

definition describesClaim :: "ComposableDRASpec \<Rightarrow> ResourceClaim \<Rightarrow> ResourceClaimInfo \<Rightarrow> bool" where
  "describesClaim spec rc i \<longleftrightarrow>
     rci_Name i = rc_Name rc \<and> rci_Namespace i = rc_Namespace rc \<and>
     rci_CreationTimestamp i = rc_CreationTimestamp rc \<and> rci_NodeName i = claimNode rc \<and>
     list_all2 (describesDevice spec rc) (boundResults rc) (rci_Devices i)"

lemma foldl_statusStep_states: "st \<in> claimStates \<Longrightarrow> foldl (statusStep a) st devs \<in> claimStates"
  by (induction devs arbitrary: st) (auto simp: claimStates_def split: option.splits)

lemma deviceState_states: "deviceState devs a \<in> claimStates"
  unfolding deviceState_def using foldl_statusStep_states [of "[]" a devs]
  by (auto simp: claimStates_def)

lemma resolveModel_Ok: "resolveModel spec slices a = Ok m \<Longrightarrow> m = poolModel spec (dra_Pool a)"
  by (auto simp: resolveModel_def poolModel_def Let_def split: if_splits outcome.splits)

lemma claimDevice_Ok: "claimDevice spec slices rc a = Ok d \<Longrightarrow> describesDevice spec rc a d"
  by (auto simp: claimDevice_def describesDevice_def dest: resolveModel_Ok)

lemma nodeNameOfFields_find:
  "nodeNameOfFields fs =
     (case find (\<lambda>f. nsr_Key f = ''metadata.name'' \<and> nsr_Operator f = ''In'') fs of
        None \<Rightarrow> None
      | Some f \<Rightarrow> Some (case nsr_Values f of [] \<Rightarrow> Panic ''index out of range'' | v # _ \<Rightarrow> Ok v))"
  by (induction fs) auto

lemma getNodeName_Ok: "getNodeName terms = Ok n \<Longrightarrow> n = selectedNode terms"
  by (induction terms)
    (auto simp: selectedNode_def find_append nodeNameOfFields_find split: option.splits list.splits)

lemma claimInfo_Ok:
  assumes "claimInfo spec slices n rc = Ok r"
  shows "case r of None \<Rightarrow> \<not> tracked rc
         | Some i \<Rightarrow> tracked rc \<and> describesClaim spec rc i \<and> rci_arr i = n"
proof (cases "rc_Allocation rc")
  case None
  with assms show ?thesis by (auto simp: claimInfo_def tracked_def boundResults_def)
next
  case (Some al)
  have devices: "list_all2 (describesDevice spec rc) (boundResults rc) ds"
    if "mapO (claimDevice spec slices rc) (boundResults rc) = Ok ds" for ds
    using that by (auto simp: mapO_Ok elim!: list_all2_mono intro: claimDevice_Ok)
  show ?thesis
  proof (cases r)
    case None
    with assms Some show ?thesis
      by (auto simp: claimInfo_def tracked_def boundResults_def mapO_Ok split: if_splits)
  next
    case r: (Some i)
    with assms Some obtain ds where ds: "mapO (claimDevice spec slices rc) (boundResults rc) = Ok ds" "ds \<noteq> []"
      and i: "rci_Devices i = ds" "rci_Name i = rc_Name rc" "rci_Namespace i = rc_Namespace rc"
        "rci_CreationTimestamp i = rc_CreationTimestamp rc" "rci_arr i = n"
      and node: "(case al_NodeSelector al of None \<Rightarrow> Ok [] | Some sel \<Rightarrow> getNodeName sel) = Ok (rci_NodeName i)"
      and reserved: "rc_ReservedFor rc \<noteq> []"
      by (auto simp: claimInfo_def boundResults_def split: if_splits)
    from node have "rci_NodeName i = claimNode rc"
      by (auto simp: claimNode_def Some split: option.splits dest: getNodeName_Ok)
    with ds i reserved devices [OF ds(1)] show ?thesis
      by (auto simp: r describesClaim_def tracked_def)
  qed
qed

lemma claimInfos_Ok:
  "claimInfos spec slices n claims = Ok infos \<Longrightarrow>
     list_all2 (describesClaim spec) (filter tracked claims) infos \<and>
     map rci_arr infos = [n..<n + length infos]"
proof (induction claims arbitrary: n infos)
  case (Cons rc rcs)
  then obtain r where r: "claimInfo spec slices n rc = Ok r" by auto
  show ?case
  proof (cases r)
    case None
    with Cons r claimInfo_Ok [OF r] show ?thesis by auto
  next
    case (Some i)
    with Cons.prems r obtain js where js: "claimInfos spec slices (Suc n) rcs = Ok js"
      and infos: "infos = i # js" by auto
    from Cons.IH [OF js] claimInfo_Ok [OF r] Some infos show ?thesis
      by (simp add: upt_conv_Cons del: upt_Suc)
  qed
qed simp

lemma describesClaim_states:
  assumes "describesClaim spec rc i" and "d \<in> set (rci_Devices i)"
  shows "rcd_State d \<in> claimStates"
proof -
  from assms obtain a where "describesDevice spec rc a d"
    unfolding describesClaim_def by (metis in_set_conv_nth list_all2_conv_all_nth)
  then show ?thesis by (simp add: describesDevice_def deviceState_states)
qed

definition wf_infos :: "ResourceClaimInfo list \<Rightarrow> bool" where
  "wf_infos infos \<longleftrightarrow>
     distinct (map rci_arr infos) \<and>
     list_all (\<lambda>i. rci_Devices i \<noteq> [] \<and> (\<forall>d\<in>set (rci_Devices i). rcd_State d \<in> claimStates)) infos"

lemma describesClaim_devices: "tracked rc \<Longrightarrow> describesClaim spec rc i \<Longrightarrow> rci_Devices i \<noteq> []"
  by (auto simp: tracked_def describesClaim_def)

lemma list_all2_filter_ex:
  "list_all2 R (filter p xs) ys \<Longrightarrow> y \<in> set ys \<Longrightarrow> \<exists>x. p x \<and> R x y"
  by (induction xs arbitrary: ys) (auto simp: list_all2_Cons1 split: if_splits)

lemma claimInfos_wf: 
  assumes "claimInfos spec slices n claims = Ok infos"
  shows "wf_infos infos"
proof -
  from assms have desc: "list_all2 (describesClaim spec) (filter tracked claims) infos"
    and arr: "map rci_arr infos = [n..<n + length infos]" by (auto dest: claimInfos_Ok)
  have "rci_Devices i \<noteq> [] \<and> (\<forall>d\<in>set (rci_Devices i). rcd_State d \<in> claimStates)"
    if i: "i \<in> set infos" for i
  proof -
    from list_all2_filter_ex [OF desc i] obtain rc
      where rc: "tracked rc" "describesClaim spec rc i" by blast
    from describesClaim_devices [OF rc] describesClaim_states [OF rc(2)] show ?thesis by blast
  qed
  with arr show ?thesis by (simp add: wf_infos_def list_all_iff)
qed

text \<open>One status entry per device: the state is the classification of its conditions.\<close>

definition classify :: "AllocationDevice \<Rightarrow> Condition list option \<Rightarrow> string" where
  "classify a conds =
     (case conds of
        None \<Rightarrow> []
      | Some cs \<Rightarrow>
          if hasConditionWithStatus cs ''FabricDeviceReschedule'' ''True'' then ''Reschedule''
          else if hasConditionWithStatus cs ''FabricDeviceFailed'' ''True'' then ''Failed''
          else if \<exists>c\<in>set cs. cond_Status c = ''True'' \<and>
                    cond_Type c \<in> set (dra_BindingConditions a) \<union> set (dra_BindingFailureConditions a)
          then [] else ''Preparing'')"

lemma hasMatchingBindingCondition_iff:
  "hasMatchingBindingCondition cs bc bf \<longleftrightarrow>
     (\<exists>c\<in>set cs. cond_Status c = ''True'' \<and> cond_Type c \<in> set bc \<union> set bf)"
  by (auto simp: hasMatchingBindingCondition_def Let_def list_ex_iff)

lemma foldl_statusStep_absent:
  "dra_Device a \<notin> ads_Device ` set devs \<Longrightarrow> foldl (statusStep a) st devs = st"
  by (induction devs arbitrary: st) auto

lemma statusStep_classify:
  "ads_Device d = dra_Device a \<Longrightarrow> statusStep a [] d = classify a (ads_Conditions d)"
  by (auto simp: classify_def hasMatchingBindingCondition_iff split: option.splits)

lemma foldl_statusStep_unique:
  "distinct (map ads_Device devs) \<Longrightarrow>
   foldl (statusStep a) [] devs =
     (case find (\<lambda>d. ads_Device d = dra_Device a) devs of
        None \<Rightarrow> [] | Some d \<Rightarrow> classify a (ads_Conditions d))"
proof (induction devs)
  case (Cons d devs)
  show ?case
  proof (cases "ads_Device d = dra_Device a")
    case True
    with Cons.prems have "dra_Device a \<notin> ads_Device ` set devs" by auto
    with True statusStep_classify [OF True] foldl_statusStep_absent show ?thesis
      by (simp del: statusStep.simps)
  next
    case False
    with Cons show ?thesis by simp
  qed
qed simp

text \<open>The UUID of a slice device: the configured attribute, whatever the order of the attributes.\<close>

lemma uuidOf_distinct:
  "distinct (map fst as) \<Longrightarrow>
   uuidOf driver u as =
     (case map_of as (driverUUIDAttrMap driver) of
        None \<Rightarrow> Ok u
      | Some None \<Rightarrow> Panic ''nil pointer dereference''
      | Some (Some v) \<Rightarrow> Ok v)"
proof (induction as arbitrary: u)
  case (Cons a as)
  obtain k v where a: "a = (k, v)" by (cases a)
  have "map_of as k = None" using Cons.prems a by (simp add: map_of_eq_None_iff)
  with Cons a show ?case by (auto split: option.splits)
qed simp

text \<open>Slices that are listed: attached to a node, with devices, none of which has binding conditions.\<close>

definition nodeLocal :: "ResourceSlice \<Rightarrow> bool" where
  "nodeLocal rs \<longleftrightarrow> rs_Devices rs \<noteq> [] \<and> \<not> hasBindingConditions rs \<and> rs_NodeName rs \<noteq> None"

definition describesSlice :: "ResourceSlice \<Rightarrow> ResourceSliceInfo \<Rightarrow> bool" where
  "describesSlice rs i \<longleftrightarrow>
     rsi_Name i = rs_Name rs \<and> Some (rsi_NodeName i) = rs_NodeName rs \<and>
     rsi_Driver i = rs_Driver rs \<and> rsi_Pool i = rs_PoolName rs \<and>
     rsi_CreationTimestamp i = rs_CreationTimestamp rs \<and>
     list_all2 (\<lambda>d d'. rsd_Name d' = sd_Name d \<and>
                       uuidOf (rs_Driver rs) [] (sd_Attributes d) = Ok (rsd_UUID d'))
       (rs_Devices rs) (rsi_Devices i)"

lemma sliceInfo_Ok:
  "sliceInfo rs = Ok r \<Longrightarrow>
     case r of None \<Rightarrow> \<not> nodeLocal rs | Some i \<Rightarrow> nodeLocal rs \<and> describesSlice rs i"
  by (auto simp: sliceInfo_def nodeLocal_def describesSlice_def mapO_Ok sliceDevice_def
      split: if_splits option.splits elim!: list_all2_mono)

lemma sliceInfos_Ok:
  "sliceInfos slices = Ok infos \<Longrightarrow> list_all2 describesSlice (filter nodeLocal slices) infos"
proof (induction slices arbitrary: infos)
  case (Cons rs rss)
  then obtain r js where r: "sliceInfo rs = Ok r" and js: "sliceInfos rss = Ok js"
    and infos: "infos = (case r of None \<Rightarrow> js | Some i \<Rightarrow> i # js)" by auto
  from sliceInfo_Ok [OF r] Cons.IH [OF js] infos show ?case by (cases r) auto
qed simp

section \<open>Properties\<close>

text \<open>
  Property C32. Validation: a configuration that \<open>GetConfigMapInfo\<close> accepts is well formed (indices
  in range, names bounded, not empty and without a slash, a valid prefix, at most 100 fabrics), and
  reading it writes nothing, whether it is accepted or not.
\<close>

theorem config_accepted_wf:
  "does (\<lambda>_. False) wf_spec (GetConfigMapInfo E)"
  unfolding GetConfigMapInfo_def by (auto intro!: does_rules dest: composableDRASpecOf_wf)

lemma ascii_hd_last:
  assumes "list_all (\<lambda>c. (of_char c :: nat) < 128) s" and "s \<noteq> []"
  shows "(of_char (hd s) :: nat) < 128" and "(of_char (last s) :: nat) < 128"
  using assms by (simp_all add: list_all_iff)

lemma of_char_eq_numeral:
  "(of_char c :: nat) = 45 \<longleftrightarrow> c = CHR ''-''" "(of_char c :: nat) = 46 \<longleftrightarrow> c = CHR ''.''"
proof -
  have "of_char (CHR ''-'') = (45 :: nat)" "of_char (CHR ''.'') = (46 :: nat)" by simp_all
  then show "(of_char c :: nat) = 45 \<longleftrightarrow> c = CHR ''-''" "(of_char c :: nat) = 46 \<longleftrightarrow> c = CHR ''.''"
    by (metis of_char_eq_iff)+
qed

text \<open>
  Property C33. \<open>validateDNSLabel\<close> on an ASCII name accepts exactly the names of at most \<open>n\<close>
  characters that consist of letters, digits and dashes and start and end with a letter or digit;
  upper-case letters are accepted.
\<close>

theorem dns_label_ascii:
  assumes ascii: "list_all (\<lambda>c. (of_char c :: nat) < 128) name"
  shows "validateDNSLabel E name n = Ok () \<longleftrightarrow>
    name \<noteq> [] \<and> length name \<le> n \<and> asciiAlnum (hd name) \<and> asciiAlnum (last name) \<and>
    list_all (\<lambda>c. asciiAlnum c \<or> c = CHR ''-'') name"
proof (cases "name = []")
  case False
  have mid: "list_all (\<lambda>c. letterOrDigit E c \<or> c = 45) (runes name) \<longleftrightarrow>
      list_all (\<lambda>c. asciiAlnum c \<or> c = CHR ''-'') name"
    using ascii unfolding runes_ascii [OF ascii]
    by (induction name) (auto simp: letterOrDigit_ascii of_char_eq_numeral)
  show ?thesis
    using ascii_hd_last [OF ascii False]
    by (auto simp: validateDNSLabel_def mid letterOrDigit_ascii)
qed (simp add: validateDNSLabel_def)

theorem dns_label_ascii_witness:
  "validateDNSLabel (memEnv []) ''a40'' 50 = Ok () \<and> validateDNSLabel (memEnv []) ''-a40'' 50 \<noteq> Ok ()"
  using dns_label_ascii [of "''a40''" "memEnv []" 50] dns_label_ascii [of "''-a40''" "memEnv []" 50]
  by (simp add: asciiAlnum_def Let_def)

text \<open>
  \<open>isValidLabelNamePrefix\<close> on an ASCII string accepts exactly the prefixes of 1 to 100
  letters, digits, dots and dashes that start and end with a letter or digit and have no two dots in
  a row.
\<close>

lemma prefixRunes_ascii:
  assumes "list_all (\<lambda>c. (of_char c :: nat) < 128) s"
  shows "prefixRunes E (of_char c0) (map of_char s) \<longleftrightarrow>
    list_all (\<lambda>c. asciiAlnum c \<or> c = CHR ''.'' \<or> c = CHR ''-'') s \<and>
    successively (\<lambda>a b. \<not> (a = CHR ''.'' \<and> b = CHR ''.'')) (c0 # s)"
  using assms
proof (induction s arbitrary: c0)
  case (Cons c s)
  then have c: "(of_char c :: nat) < 128" and s: "list_all (\<lambda>c. (of_char c :: nat) < 128) s" by simp_all
  show ?case
    using Cons.IH [OF s, of c] unfolding list.map prefixRunes.simps letterOrDigit_ascii [OF c] of_char_eq_numeral
    by (auto simp del: of_char_eq_iff)
qed simp

lemma label_prefix_ascii:
  assumes ascii: "list_all (\<lambda>c. (of_char c :: nat) < 128) s"
  shows "isValidLabelNamePrefix E s \<longleftrightarrow>
    s \<noteq> [] \<and> length s \<le> 100 \<and> asciiAlnum (hd s) \<and> asciiAlnum (last s) \<and>
    list_all (\<lambda>c. asciiAlnum c \<or> c = CHR ''.'' \<or> c = CHR ''-'') s \<and>
    successively (\<lambda>a b. \<not> (a = CHR ''.'' \<and> b = CHR ''.'')) s"
proof (cases "s = []")
  case False
  have zero: "of_char (char_of (0 :: nat)) = (0 :: nat)" by simp
  have first: "char_of (0 :: nat) \<noteq> CHR ''.''"
    using of_char_eq_numeral(2) [of "char_of (0 :: nat)"] by simp
  have "prefixRunes E 0 (runes s) \<longleftrightarrow>
      list_all (\<lambda>c. asciiAlnum c \<or> c = CHR ''.'' \<or> c = CHR ''-'') s \<and>
      successively (\<lambda>a b. \<not> (a = CHR ''.'' \<and> b = CHR ''.'')) s"
    using prefixRunes_ascii [OF ascii, of E "char_of (0 :: nat)"] first
    unfolding runes_ascii [OF ascii] zero by (cases s) auto
  then show ?thesis
    using ascii_hd_last [OF ascii False] False
    by (auto simp: isValidLabelNamePrefix_def letterOrDigit_ascii not_less)
qed (simp add: isValidLabelNamePrefix_def)

text \<open>
  Property C29. The limits of a node are those of its labels: the entry of \<open>ni_Models\<close> for a device
  name has the maximum and the minimum that the labels \<open>prefix/name-size-max\<close> and
  \<open>prefix/name-size-min\<close> give, and there is no entry without a label.
\<close>

theorem node_constraints_from_labels:
  assumes "distinct (map fst (node_Labels node))" and "nodeInfo spec node = Ok info"
  shows "ni_Name info = node_Name node \<and> distinct (map mc_DeviceName (ni_Models info)) \<and>
    (\<forall>d. constraintFor (ni_Models info) d = expectedConstraint spec (node_Labels node) d)"
  using assms labelLoop_expected [of "node_Labels node" spec] by (auto simp: nodeInfo_def)

theorem node_constraints_from_labels_witness:
  "constraintFor (ni_Models sampleNode) ''a40'' = expectedConstraint sampleSpec sampleLabels ''a40''"
proof -
  let ?node = "\<lparr>node_Name = ''n1'', node_Labels = sampleLabels\<rparr>"
  have "distinct (map fst (node_Labels ?node))" by code_simp
  moreover have "nodeInfo sampleSpec ?node = Ok sampleNode" by code_simp
  ultimately show ?thesis using node_constraints_from_labels [of ?node sampleSpec sampleNode] by simp
qed

text \<open>
  Property C30. The order in which Go ranges over the labels of a node does not matter: whether the
  labels are accepted and the constraint of every device name are the same for every order.
\<close>

theorem node_labels_order_irrelevant:
  assumes "distinct (map fst labels)" and "mset labels' = mset labels"
    and "nodeInfo spec \<lparr>node_Name = n, node_Labels = labels\<rparr> = Ok info"
  shows "\<exists>info'. nodeInfo spec \<lparr>node_Name = n, node_Labels = labels'\<rparr> = Ok info' \<and>
    (\<forall>d. constraintFor (ni_Models info') d = constraintFor (ni_Models info) d)"
proof -
  have dist: "distinct (map fst labels')"
    using assms(1,2) by (metis mset_eq_imp_distinct_iff mset_map)
  have same: "set labels' = set labels" using assms(2) by (metis set_mset_mset)
  from assms(3) obtain models where m: "labelLoop spec labels [] = Ok models" "ni_Models info = models"
    by (auto simp: nodeInfo_def)
  then have "list_all (labelOk spec) labels" using labelLoop_Ok_iff by blast
  then have "list_all (labelOk spec) labels'" by (simp add: list_all_iff same)
  then obtain models' where m': "labelLoop spec labels' [] = Ok models'"
    using labelLoop_Ok_iff by blast
  then have "\<forall>d. constraintFor models' d = constraintFor models d"
    using labelLoop_expected [OF dist m'] labelLoop_expected [OF assms(1) m(1)]
      expectedConstraint_perm [OF assms(1,2)] by simp
  with m m' show ?thesis by (simp add: nodeInfo_def)
qed

theorem node_labels_order_irrelevant_witness:
  "\<exists>info'. nodeInfo sampleSpec \<lparr>node_Name = ''n1'', node_Labels = rev sampleLabels\<rparr> = Ok info' \<and>
    (\<forall>d. constraintFor (ni_Models info') d = constraintFor (ni_Models sampleNode) d)"
proof -
  have "distinct (map fst sampleLabels)" by code_simp
  moreover have "nodeInfo sampleSpec \<lparr>node_Name = ''n1'', node_Labels = sampleLabels\<rparr> = Ok sampleNode"
    by code_simp
  ultimately show ?thesis
    using node_labels_order_irrelevant [of sampleLabels "rev sampleLabels" sampleSpec "''n1''" sampleNode] by simp
qed

text \<open>
  Property C26. \<open>GetResourceClaimInfo\<close> describes exactly the claims that are reserved, allocated and
  wait on a device with binding conditions, in the order of the list, with their node, and each device
  with its identity, the model of its pool and the state of its conditions; every description has devices, a device array of its own and
  states of the four kinds; nothing is written.
\<close>

theorem claim_infos_describe_claims:
  assumes "listResourceClaims E (wld s) = (Inr claims, w)" and "GetResourceClaimInfo E spec s = (Ok infos, t)"
  shows "list_all2 (describesClaim spec) (filter tracked claims) infos \<and> wf_infos infos \<and> calls t = calls s"
proof -
  from assms obtain slices where "claimInfos spec slices 0 claims = Ok infos"
    by (auto simp: GetResourceClaimInfo_def andThen_Ok readOp_def lift_def split: prod.splits sum.splits)
  moreover have "calls t = calls s"
    using assms(2) by (intro silent_calls [where m = "GetResourceClaimInfo E spec" and Q = "\<lambda>_. True"])
      (auto simp: GetResourceClaimInfo_def intro!: does_rules)
  ultimately show ?thesis using claimInfos_Ok claimInfos_wf by blast
qed

theorem claim_infos_describe_claims_witness:
  "list_all2 (describesClaim sampleSpec) (filter tracked [sampleClaim ''c1'' 5 ''a40-fabric1''])
     [sampleInfo 0 ''c1'' 5 [''A40'']]"
proof -
  let ?s = "sampleState [sampleClaim ''c1'' 5 ''a40-fabric1''] [] []"
  have "fst (GetResourceClaimInfo (memEnv sampleDevices) sampleSpec ?s) = Ok [sampleInfo 0 ''c1'' 5 [''A40'']]"
    by code_simp
  then have "GetResourceClaimInfo (memEnv sampleDevices) sampleSpec ?s =
      (Ok [sampleInfo 0 ''c1'' 5 [''A40'']], snd (GetResourceClaimInfo (memEnv sampleDevices) sampleSpec ?s))"
    by (rule run_eqI)
  moreover have "listResourceClaims (memEnv sampleDevices) (wld ?s) =
      (Inr [sampleClaim ''c1'' 5 ''a40-fabric1''], wld ?s)" by (simp add: sampleState_def sampleCluster_def)
  ultimately show ?thesis
    using claim_infos_describe_claims [of "memEnv sampleDevices" ?s] by blast
qed

text \<open>
  Entries are matched by the device name alone: the entries of another driver or pool decide the state of
  a device of that name as well.
\<close>

lemma state_ignores_pool: "deviceState devs (a\<lparr>dra_Driver := dr, dra_Pool := p\<rparr>) = deviceState devs a"
proof -
  have "statusStep (a\<lparr>dra_Driver := dr, dra_Pool := p\<rparr>) = statusStep a"
    by (intro ext) (simp split: option.split)
  then show ?thesis by (simp add: deviceState_def)
qed

text \<open>
  Property C27. When no two status entries have the same device name, the state of a device is decided by
  the conditions of the entry with its name, whatever the driver and the pool of that entry: \<open>Reschedule\<close>
  before \<open>Failed\<close> before \<open>Preparing\<close>, where a device is \<open>Preparing\<close> when none of its binding conditions
  holds; no entries at all mean \<open>Preparing\<close>, and a missing entry, an entry without conditions or a
  satisfied binding condition leave the state empty.
\<close>

theorem device_state_classified:
  assumes "distinct (map ads_Device devs)"
  shows "deviceState devs a =
    (if devs = [] then ''Preparing''
     else case find (\<lambda>d. ads_Device d = dra_Device a) devs of
            None \<Rightarrow> [] | Some d \<Rightarrow> classify a (ads_Conditions d))"
  using foldl_statusStep_unique [OF assms] by (simp add: deviceState_def)

theorem device_state_classified_witness:
  "deviceState [\<lparr>ads_Driver = ''g'', ads_Pool = ''p'', ads_Device = ''device-0'', ads_Conditions = Some []\<rparr>]
     (sampleAllocated ''a40-fabric1'' ''device-0'') = ''Preparing''"
  using device_state_classified [of "[\<lparr>ads_Driver = ''g'', ads_Pool = ''p'', ads_Device = ''device-0'',
      ads_Conditions = Some []\<rparr>]" "sampleAllocated ''a40-fabric1'' ''device-0''"]
  by (simp add: sampleAllocated_def classify_def hasConditionWithStatus_def)

text \<open>
  \<open>getNodeName\<close> returns the first value of the first field \<open>metadata.name In ...\<close> over all
  terms, the empty string when there is none, and panics exactly when that field has no values.
\<close>

lemma node_name_first_field:
  "getNodeName terms =
     (case find (\<lambda>f. nsr_Key f = ''metadata.name'' \<and> nsr_Operator f = ''In'') (concat (map nst_MatchFields terms)) of
        None \<Rightarrow> Ok []
      | Some f \<Rightarrow> (case nsr_Values f of [] \<Rightarrow> Panic ''index out of range'' | v # _ \<Rightarrow> Ok v))"
  by (induction terms) (simp_all add: nodeNameOfFields_find find_append split: option.split)

text \<open>
  The model of an allocated device is the model that the configuration gives for the
  pool name without its fabric suffix, whether or not a slice lists the device; a pool that the
  configuration does not know is an error when a slice lists the device and leaves the model empty
  otherwise.
\<close>

lemma model_from_pool:
  "resolveModel spec slices a =
     (case getModelName spec (stripFabric (dra_Pool a)) of
        Ok m \<Rightarrow> Ok m
      | Fail e \<Rightarrow> if sliceListsDevice slices a then Fail e else Ok []
      | Panic p \<Rightarrow> Panic p)"
  by (auto simp: resolveModel_def Let_def split: outcome.splits)

text \<open>
  Property C28. For a pool \<open>name-fabricN\<close>, any digits \<open>N\<close>, the model of the device \<open>name\<close> of the
  configuration is found.
\<close>

theorem model_from_fabric_pool:
  assumes "distinct (map di_K8sDeviceName (sp_DeviceInfos spec))" and "info \<in> set (sp_DeviceInfos spec)"
    and "list_all isDigitChar n" and "n \<noteq> []"
    and "dra_Pool a = di_K8sDeviceName info @ ''-fabric'' @ n"
  shows "resolveModel spec slices a = Ok (di_CDIModelName info)"
  using getModelName_distinct [OF assms(1,2)] stripFabric_match [OF assms(3,4)]
  by (simp add: resolveModel_def Let_def assms(5))

theorem model_from_fabric_pool_witness:
  "resolveModel sampleSpec [] (sampleAllocated ''a40-fabric17'' ''device-0'') = Ok ''A40''"
proof -
  let ?a = "sampleAllocated ''a40-fabric17'' ''device-0''" and ?i = "sampleDevice 1 ''A40'' ''a40'' [2]"
  have "distinct (map di_K8sDeviceName (sp_DeviceInfos sampleSpec))" by code_simp
  moreover have "?i \<in> set (sp_DeviceInfos sampleSpec)" by (simp add: sampleSpec_def sampleDevices_def)
  moreover have "list_all isDigitChar ''17''" by code_simp
  moreover have "dra_Pool ?a = di_K8sDeviceName ?i @ ''-fabric'' @ ''17''"
    by (simp add: sampleAllocated_def sampleDevice_def)
  ultimately show ?thesis
    using model_from_fabric_pool [of sampleSpec ?i "''17''" ?a "[]"] by (simp add: sampleDevice_def)
qed

definition sliceUUID :: "string \<Rightarrow> SliceDevice \<Rightarrow> string" where
  "sliceUUID driver d = orElse (orElse (map_of (sd_Attributes d) (driverUUIDAttrMap driver)) None) []"

definition showsSlice :: "ResourceSlice \<Rightarrow> ResourceSliceInfo \<Rightarrow> bool" where
  "showsSlice rs i \<longleftrightarrow>
     rsi_Name i = rs_Name rs \<and> Some (rsi_NodeName i) = rs_NodeName rs \<and>
     rsi_Driver i = rs_Driver rs \<and> rsi_Pool i = rs_PoolName rs \<and>
     rsi_Devices i = map (\<lambda>d. \<lparr>rsd_Name = sd_Name d, rsd_UUID = sliceUUID (rs_Driver rs) d\<rparr>) (rs_Devices rs)"

lemma uuidOf_sliceUUID:
  assumes "distinct (map fst (sd_Attributes d))" and "uuidOf driver [] (sd_Attributes d) = Ok u"
  shows "u = sliceUUID driver d"
proof (cases "map_of (sd_Attributes d) (driverUUIDAttrMap driver)")
  case None
  with assms show ?thesis by (simp add: uuidOf_distinct sliceUUID_def orElse_def)
next
  case (Some v)
  with assms show ?thesis by (cases v) (simp_all add: uuidOf_distinct sliceUUID_def orElse_def)
qed

lemma describesSlice_shows:
  assumes "describesSlice rs i" and "\<forall>d\<in>set (rs_Devices rs). distinct (map fst (sd_Attributes d))"
  shows "showsSlice rs i"
proof -
  have "list_all2 (\<lambda>d d'. d' = \<lparr>rsd_Name = sd_Name d, rsd_UUID = sliceUUID (rs_Driver rs) d\<rparr>)
      (rs_Devices rs) (rsi_Devices i)"
    using assms uuidOf_sliceUUID unfolding describesSlice_def by (auto elim!: list.rel_mono_strong)
  then have "rsi_Devices i = map (\<lambda>d. \<lparr>rsd_Name = sd_Name d, rsd_UUID = sliceUUID (rs_Driver rs) d\<rparr>) (rs_Devices rs)"
    by (induction rule: list_all2_induct) auto
  with assms(1) show ?thesis by (simp add: describesSlice_def showsSlice_def)
qed

text \<open>
  Property C31. \<open>GetResourceSliceInfo\<close> describes exactly the slices of a node that have devices and
  no binding conditions, each device with the UUID attribute of its driver, whatever the order of
  the attributes, and without a UUID when the attribute is missing; nothing is written.
\<close>

theorem slice_infos_describe_slices:
  assumes "listResourceSlices E (wld s) = (Inr slices, w)" and "GetResourceSliceInfo E s = (Ok infos, t)"
    and "\<forall>rs\<in>set slices. \<forall>d\<in>set (rs_Devices rs). distinct (map fst (sd_Attributes d))"
  shows "list_all2 showsSlice (filter nodeLocal slices) infos \<and> calls t = calls s"
proof
  show "calls t = calls s"
    using assms(2) by (intro silent_calls [where m = "GetResourceSliceInfo E" and Q = "\<lambda>_. True"])
      (auto simp: GetResourceSliceInfo_def intro!: does_rules)
  from assms(1,2) have "sliceInfos slices = Ok infos"
    by (auto simp: GetResourceSliceInfo_def andThen_Ok readOp_def lift_def)
  then show "list_all2 showsSlice (filter nodeLocal slices) infos"
    using assms(3) by (auto dest!: sliceInfos_Ok elim!: list.rel_mono_strong) (blast intro: describesSlice_shows)
qed

theorem slice_infos_describe_slices_witness:
  "list_all2 showsSlice (filter nodeLocal [sampleSlice]) [sampleSliceInfo]"
proof -
  let ?s = "sampleState [] [] []"
  have "fst (GetResourceSliceInfo (memEnv []) ?s) = Ok [sampleSliceInfo]" by code_simp
  then have run: "GetResourceSliceInfo (memEnv []) ?s = (Ok [sampleSliceInfo], snd (GetResourceSliceInfo (memEnv []) ?s))"
    by (rule run_eqI)
  have list: "listResourceSlices (memEnv []) (wld ?s) = (Inr [sampleSlice], wld ?s)"
    by (simp add: sampleState_def sampleCluster_def)
  have attrs: "\<forall>rs\<in>set [sampleSlice]. \<forall>d\<in>set (rs_Devices rs). distinct (map fst (sd_Attributes d))"
    by (simp add: sampleSlice_def)
  from slice_infos_describe_slices [OF list run attrs] show ?thesis by blast
qed

end
