(* ===== verification/PatchUtils.thy ===== *)
theory PatchUtils
  imports InfoUtils "HOL-Library.AList"
begin

text \<open>
  \<open>src/internal/utils/patch_utils.go\<close>: the writes of the controller. Four functions patch an
  API object and try again when the API server answers with a conflict, at most
  \<open>maxRetries\<close> times; \<open>UpdateNodeLabel\<close> computes the labels of a node.
\<close>

section \<open>Definitions\<close>

definition maxRetries :: nat where
  "maxRetries = 2"

text \<open>
  The loop \<open>for range maxRetries { ... }\<close> that the four functions share. One attempt ends the
  function with success (\<open>None\<close>), asks for another round because of a conflict (\<open>Some err\<close>), or
  fails. After the last round the function fails with the last conflict.
\<close>

fun retryLoop :: "nat \<Rightarrow> ('w, string option) io \<Rightarrow> string option \<Rightarrow> ('w, unit) io" where
  "retryLoop 0 attempt lastErr = raise (MaxRetriesReached maxRetries lastErr)"
| "retryLoop (Suc n) attempt lastErr =
     andThen attempt (\<lambda>r. case r of None \<Rightarrow> ret () | Some e \<Rightarrow> retryLoop n attempt (Some e))"

text \<open>A patch request and the treatment of its error.\<close>

definition patchOnce :: "'w env \<Rightarrow> string \<Rightarrow> api_call \<Rightarrow> ('w, string option) io" where
  "patchOnce E msg c =
     andThen (issue E c) (\<lambda>r.
       case r of
         None \<Rightarrow> ret None
       | Some err \<Rightarrow> if IsConflict E err then ret (Some err) else raise (Wrap msg (ApiErr err)))"

text \<open>\<open>patchNodeLabel\<close>: labels to add map to \<open>"true"\<close>, labels to delete to \<open>null\<close>.\<close>

definition labelsPatch :: "string list \<Rightarrow> string list \<Rightarrow> (string \<times> string option) list" where
  "labelsPatch addLabels deleteLabels =
     foldl (\<lambda>m l. AList.update l None m)
       (foldl (\<lambda>m l. AList.update l (Some ''true'') m) [] addLabels) deleteLabels"

definition patchNodeLabel :: "'w env \<Rightarrow> string \<Rightarrow> string list \<Rightarrow> string list \<Rightarrow> ('w, unit) io" where
  "patchNodeLabel E nodeName addLabels deleteLabels =
     retryLoop maxRetries
       (patchOnce E ''patch failed'' (PatchNodeLabels nodeName (labelsPatch addLabels deleteLabels)))
       None"

definition annotationAttempt :: "'w env \<Rightarrow> string \<Rightarrow> string \<Rightarrow> string \<Rightarrow> ('w, string option) io" where
  "annotationAttempt E resourceName key val =
     andThen (wrapErr ''failed to get latest ComposableResource''
       (readOp (getComposableResource E resourceName))) (\<lambda>currentCR.
     if cr_Annotations currentCR key = Some val then ret None
     else patchOnce E ''failed to patch ComposableResource'' (PatchAnnotation resourceName key val))"

definition PatchComposableResourceAnnotation ::
    "'w env \<Rightarrow> string \<Rightarrow> string \<Rightarrow> string \<Rightarrow> ('w, unit) io" where
  "PatchComposableResourceAnnotation E resourceName key val =
     retryLoop maxRetries (annotationAttempt E resourceName key val) None"

definition sizeAttempt :: "'w env \<Rightarrow> string \<Rightarrow> int \<Rightarrow> ('w, string option) io" where
  "sizeAttempt E requestName cnt =
     andThen (wrapErr ''failed to get ComposabilityRequest''
       (readOp (getComposabilityRequest E requestName))) (\<lambda>_.
     patchOnce E ''failed to patch ComposabilityRequest'' (PatchRequestSize requestName cnt))"

definition PatchComposabilityRequestSize :: "'w env \<Rightarrow> string \<Rightarrow> int \<Rightarrow> ('w, unit) io" where
  "PatchComposabilityRequestSize E requestName cnt =
     retryLoop maxRetries (sizeAttempt E requestName cnt) None"

text \<open>
  \<open>PatchResourceClaimDeviceConditions\<close>. The status entries are created from the allocation when
  there are none; then every entry gets the condition.
\<close>

definition statusDevices :: "ResourceClaim \<Rightarrow> AllocatedDeviceStatus list" where
  "statusDevices rc =
     (if rc_Devices rc = []
      then (case rc_Allocation rc of
              None \<Rightarrow> []
            | Some al \<Rightarrow>
                map (\<lambda>a. \<lparr>ads_Driver = dra_Driver a, ads_Pool = dra_Pool a,
                          ads_Device = dra_Device a, ads_Conditions = None\<rparr>) (al_Results al))
      else rc_Devices rc)"

fun setCondition :: "Condition \<Rightarrow> Condition list \<Rightarrow> Condition list" where
  "setCondition newCond [] = [newCond]"
| "setCondition newCond (c # cs) =
     (if cond_Type c = cond_Type newCond
      then (if cond_Status c \<noteq> cond_Status newCond then newCond # cs else c # cs)
      else c # setCondition newCond cs)"

definition conditionsOf :: "AllocatedDeviceStatus \<Rightarrow> Condition list" where
  "conditionsOf d = (case ads_Conditions d of None \<Rightarrow> [] | Some cs \<Rightarrow> cs)"

definition newCondition :: "gotime \<Rightarrow> string \<Rightarrow> string \<Rightarrow> Condition" where
  "newCondition t device conditionType =
     \<lparr>cond_Type = conditionType, cond_Status = ''True'', cond_LastTransitionTime = t,
      cond_Reason = ''DeviceConditionUpdated'',
      cond_Message = ''Device '' @ device @ '' condition '' @ conditionType @ '' updated''\<rparr>"

definition updateDevice :: "gotime \<Rightarrow> string \<Rightarrow> AllocatedDeviceStatus \<Rightarrow> AllocatedDeviceStatus" where
  "updateDevice t conditionType d =
     d\<lparr>ads_Conditions := Some (setCondition (newCondition t (ads_Device d) conditionType) (conditionsOf d))\<rparr>"

text \<open>The loop reads the clock once per device.\<close>

fun updateDevices ::
    "'w env \<Rightarrow> string \<Rightarrow> AllocatedDeviceStatus list \<Rightarrow> ('w, AllocatedDeviceStatus list) io" where
  "updateDevices E conditionType [] = ret []"
| "updateDevices E conditionType (d # ds) =
     andThen (now E) (\<lambda>t.
     andThen (updateDevices E conditionType ds) (\<lambda>ds'.
     ret (updateDevice t conditionType d # ds')))"

definition conditionsAttempt :: "'w env \<Rightarrow> string \<Rightarrow> string \<Rightarrow> string \<Rightarrow> ('w, string option) io" where
  "conditionsAttempt E name namespace conditionType =
     andThen (wrapErr ''failed to get ResourceClaim''
       (readOp (getResourceClaim E namespace name))) (\<lambda>existingRC.
     if statusDevices existingRC = [] then ret None
     else
       andThen (updateDevices E conditionType (statusDevices existingRC)) (\<lambda>devices.
       patchOnce E ''failed to patch ResourceClaim status'' (PatchClaimStatus namespace name devices)))"

definition PatchResourceClaimDeviceConditions ::
    "'w env \<Rightarrow> string \<Rightarrow> string \<Rightarrow> string \<Rightarrow> ('w, unit) io" where
  "PatchResourceClaimDeviceConditions E name namespace conditionType =
     retryLoop maxRetries (conditionsAttempt E name namespace conditionType) None"

text \<open>\<open>UpdateNodeLabel\<close>, with \<open>notIn\<close> of \<open>reschedule_utils.go\<close>.\<close>

definition notIn :: "'a \<Rightarrow> 'a list \<Rightarrow> bool" where
  "notIn target slice \<longleftrightarrow> \<not> List.member slice target"

fun addInstalled :: "('x \<Rightarrow> bool) \<Rightarrow> ('x \<Rightarrow> string) \<Rightarrow> string list \<Rightarrow> 'x list \<Rightarrow> string list" where
  "addInstalled relevant model installed [] = installed"
| "addInstalled relevant model installed (x # xs) =
     addInstalled relevant model
       (if relevant x then (if notIn (model x) installed then installed @ [model x] else installed)
        else installed) xs"

definition installedDevices ::
    "string \<Rightarrow> ComposabilityRequest list \<Rightarrow> ComposableResource list \<Rightarrow> string list" where
  "installedDevices nodeName requests resources =
     addInstalled (\<lambda>rs. cr_TargetNode rs = nodeName \<and> cr_State rs = ''Online'') cr_Model
       (addInstalled (\<lambda>cr. req_TargetNode cr = nodeName \<and> req_Size cr > 0) req_Model [] requests)
       resources"

definition notCoexistID :: "string list \<Rightarrow> NodeInfo \<Rightarrow> ComposableDRASpec \<Rightarrow> int list" where
  "notCoexistID installed node spec =
     concat (map (\<lambda>device. concat (map (\<lambda>info. if device = di_CDIModelName info
                                               then di_CannotCoexistWith info else [])
                                        (sp_DeviceInfos spec))) installed) @
     concat (map (\<lambda>mc. if mc_MaxDeviceSet mc \<and> mc_MaxDevice mc = 0
                       then concat (map (\<lambda>info. if mc_DeviceName mc = di_K8sDeviceName info
                                                then [di_Index info] else [])
                                        (sp_DeviceInfos spec))
                       else []) (ni_Models node))"

definition labelOf :: "ComposableDRASpec \<Rightarrow> DeviceInfo \<Rightarrow> string" where
  "labelOf spec info = sp_LabelPrefix spec @ ''/'' @ di_K8sDeviceName info"

definition addLabels :: "ComposableDRASpec \<Rightarrow> int list \<Rightarrow> string list" where
  "addLabels spec ids = map (labelOf spec) (filter (\<lambda>i. notIn (di_Index i) ids) (sp_DeviceInfos spec))"

definition deleteLabels :: "ComposableDRASpec \<Rightarrow> int list \<Rightarrow> string list" where
  "deleteLabels spec ids =
     map (labelOf spec) (filter (\<lambda>i. \<not> notIn (di_Index i) ids) (sp_DeviceInfos spec))"

definition UpdateNodeLabel :: "'w env \<Rightarrow> NodeInfo \<Rightarrow> ComposableDRASpec \<Rightarrow> ('w, unit) io" where
  "UpdateNodeLabel E node spec =
     andThen (wrapErr ''failed to list composabilityRequestList''
       (readOp (listComposabilityRequests E))) (\<lambda>requests.
     andThen (wrapErr ''failed to list ComposableResourceList''
       (readOp (listComposableResources E))) (\<lambda>resources.
     let ids = notCoexistID (installedDevices (ni_Name node) requests resources) node spec
     in patchNodeLabel E (ni_Name node) (addLabels spec ids) (deleteLabels spec ids)))"

section \<open>Retries\<close>

text \<open>
  The trace of a retried write: first the rejected requests, then, if the function succeeds, at
  most one accepted request (exactly one when the function must write), all of them requests
  that \<open>C\<close> allows and not more than \<open>n\<close> in total.
\<close>

definition retry_trace :: "bool \<Rightarrow> (api_call \<Rightarrow> bool) \<Rightarrow> nat \<Rightarrow> unit outcome \<Rightarrow> event list \<Rightarrow> bool" where
  "retry_trace must C n r new \<longleftrightarrow>
     (\<exists>rejected accepted. new = rejected @ accepted \<and> length new \<le> n \<and>
        list_all (\<lambda>(c, ok). C c \<and> \<not> ok) rejected \<and>
        (case r of
           Ok _ \<Rightarrow> (\<not> must \<and> accepted = []) \<or> (\<exists>c. C c \<and> accepted = [(c, True)])
         | Fail _ \<Rightarrow> accepted = []
         | Panic _ \<Rightarrow> False))"

lemma retry_trace_intros:
  "C c \<Longrightarrow> retry_trace must C (Suc n) (Ok u) [(c, True)]"
  "\<not> must \<Longrightarrow> retry_trace must C n (Ok u) []"
  "retry_trace must C n (Fail e) []"
  "C c \<Longrightarrow> retry_trace must C (Suc n) (Fail e) [(c, False)]"
  unfolding retry_trace_def by (force intro: exI [of _ "[]"])+

lemma retry_trace_reject:
  assumes "retry_trace must C n r new" and "C c"
  shows "retry_trace must C (Suc n) r ((c, False) # new)"
proof -
  from assms(1) obtain rej acc where "new = rej @ acc" "length new \<le> n"
    "list_all (\<lambda>(c, ok). C c \<and> \<not> ok) rej"
    "case r of Ok _ \<Rightarrow> (\<not> must \<and> acc = []) \<or> (\<exists>c. C c \<and> acc = [(c, True)])
     | Fail _ \<Rightarrow> acc = [] | Panic _ \<Rightarrow> False"
    unfolding retry_trace_def by blast
  with assms(2) show ?thesis
    unfolding retry_trace_def by (intro exI [of _ "(c, False) # rej"] exI [of _ acc]) simp
qed

lemma retry_trace_targets: "retry_trace must C n r new \<Longrightarrow> list_all (\<lambda>(c, ok). C c) new"
  by (cases r) (auto simp: retry_trace_def list_all_iff)

lemma retry_trace_length: "retry_trace must C n r new \<Longrightarrow> length new \<le> n"
  by (auto simp: retry_trace_def)

text \<open>
  The contract of one attempt, which every retried function provides. An attempt that reports success
  has sent a request that was accepted, or has found that none is needed; \<open>needless\<close> says so of the
  world that its read left.
\<close>

locale retry_attempt =
  fixes attempt :: "('w, string option) io"
    and needless :: "'w \<Rightarrow> bool"
    and target :: "api_call \<Rightarrow> bool"
  assumes attempt_done: "attempt s = (Ok None, t) \<Longrightarrow>
      (needless (wld t) \<and> calls t = calls s) \<or> (\<exists>c. target c \<and> calls t = calls s @ [(c, True)])"
    and attempt_conflict: "attempt s = (Ok (Some e), t) \<Longrightarrow>
      \<exists>c. target c \<and> calls t = calls s @ [(c, False)]"
    and attempt_fail: "attempt s = (Fail err, t) \<Longrightarrow>
      calls t = calls s \<or> (\<exists>c. target c \<and> calls t = calls s @ [(c, False)])"
    and attempt_no_panic: "attempt s \<noteq> (Panic p, t)"
begin

lemma retryLoop_trace:
  "\<exists>new. calls (snd (retryLoop n attempt lastErr s)) = calls s @ new \<and>
         retry_trace (\<not> needless (wld (snd (retryLoop n attempt lastErr s)))) target n
           (fst (retryLoop n attempt lastErr s)) new"
proof (induction n arbitrary: lastErr s)
  case 0
  then show ?case by (auto simp: run_simps intro: retry_trace_intros)
next
  case (Suc n)
  obtain r t where att: "attempt s = (r, t)" by fastforce
  consider (ok) "r = Ok None" | (conflict) e where "r = Ok (Some e)" | (fail) err where "r = Fail err"
    using att attempt_no_panic by (metis option.exhaust outcome.exhaust)
  then show ?case
  proof cases
    case ok
    with att have "retryLoop (Suc n) attempt lastErr s = (Ok (), t)" by (simp add: run_simps)
    with attempt_done [of s t] att ok show ?thesis
      by (auto simp del: retryLoop.simps intro: retry_trace_intros)
  next
    case (conflict e)
    with att have eq: "retryLoop (Suc n) attempt lastErr s = retryLoop n attempt (Some e) t"
      by (simp add: run_simps)
    from attempt_conflict att conflict obtain c
      where c: "target c" "calls t = calls s @ [(c, False)]" by blast
    from Suc.IH [of "Some e" t] c show ?thesis
      unfolding eq by (auto intro: retry_trace_reject)
  next
    case (fail err)
    with att have "retryLoop (Suc n) attempt lastErr s = (Fail err, t)" by (simp add: run_simps)
    with attempt_fail [of s err t] att fail show ?thesis
      by (auto simp del: retryLoop.simps intro: retry_trace_intros)
  qed
qed

lemma emits_retryLoop: "emits (\<lambda>(c, ok). target c) (retryLoop n attempt lastErr)"
proof (rule doesI)
  fix s
  show "\<exists>new. calls (snd (retryLoop n attempt lastErr s)) = calls s @ new \<and>
      list_all (\<lambda>(c, ok). target c) new"
    using retryLoop_trace [of n lastErr s] retry_trace_targets by blast
qed simp

end

section \<open>The retried functions\<close>

lemma patchOnce_cases:
  "patchOnce E msg c s = (r, t) \<Longrightarrow>
     (r = Ok None \<and> calls t = calls s @ [(c, True)]) \<or>
     (\<exists>e. r = Ok (Some e) \<and> calls t = calls s @ [(c, False)]) \<or>
     (\<exists>e. r = Fail e \<and> calls t = calls s @ [(c, False)])"
  by (auto simp: patchOnce_def issue_def andThen_def writeOp_def run_simps
      split: prod.splits option.splits if_splits)

lemma readOp_cases:
  "readOp f s = (r, t) \<Longrightarrow> calls t = calls s \<and> (\<forall>p. r \<noteq> Panic p)"
  by (auto simp: readOp_def split: prod.splits sum.splits)

interpretation node_patch: retry_attempt "patchOnce E msg c" "\<lambda>_. False" "\<lambda>c'. c' = c" for E msg c
  by unfold_locales (auto dest: patchOnce_cases)

text \<open>An attempt that reads first and then possibly patches.\<close>

lemma read_then_cases:
  assumes "andThen (wrapErr msg (readOp f)) g s = (r, t)"
  shows "(calls t = calls s \<and> (\<exists>e. r = Fail e)) \<or>
         (\<exists>x s'. calls s' = calls s \<and> f (wld s) = (Inr x, wld s') \<and> g x s' = (r, t))"
  using assms by (auto simp: readOp_def andThen_def wrapErr_def split: prod.splits sum.splits)

text \<open>
  Nothing to write: the resource, or the claim, as the last read has returned it, has the value already, or
  has no device to write a status for.
\<close>

definition alreadyAnnotated :: "'w env \<Rightarrow> string \<Rightarrow> string \<Rightarrow> string \<Rightarrow> 'w \<Rightarrow> bool" where
  "alreadyAnnotated E n k v w \<longleftrightarrow> (\<exists>w0 cr. getComposableResource E n w0 = (Inr cr, w) \<and> cr_Annotations cr k = Some v)"

lemma alreadyAnnotatedI:
  "getComposableResource E n w0 = (Inr cr, w) \<Longrightarrow> cr_Annotations cr k = Some v \<Longrightarrow> alreadyAnnotated E n k v w"
  unfolding alreadyAnnotated_def by blast

definition withoutDevices :: "'w env \<Rightarrow> string \<Rightarrow> string \<Rightarrow> 'w \<Rightarrow> bool" where
  "withoutDevices E n ns w \<longleftrightarrow> (\<exists>w0 rc. getResourceClaim E ns n w0 = (Inr rc, w) \<and> statusDevices rc = [])"

interpretation size_patch: retry_attempt "sizeAttempt E requestName cnt" "\<lambda>_. False"
    "\<lambda>c. c = PatchRequestSize requestName cnt" for E requestName cnt
  by unfold_locales (unfold sizeAttempt_def, auto dest!: read_then_cases patchOnce_cases)

interpretation annotation_patch: retry_attempt "annotationAttempt E resourceName key val"
    "alreadyAnnotated E resourceName key val" "\<lambda>c. c = PatchAnnotation resourceName key val" for E resourceName key val
  by unfold_locales
    (unfold annotationAttempt_def,
      auto dest!: read_then_cases patchOnce_cases intro: alreadyAnnotatedI simp: ret_def split: if_splits)

text \<open>A list of status entries that all carry the condition.\<close>

definition marked :: "string \<Rightarrow> AllocatedDeviceStatus list \<Rightarrow> bool" where
  "marked conditionType ds \<longleftrightarrow>
     ds \<noteq> [] \<and> list_all (\<lambda>d. hasConditionWithStatus (conditionsOf d) conditionType ''True'') ds"

lemma setCondition_has: "hasConditionWithStatus (setCondition nc cs) (cond_Type nc) (cond_Status nc)"
  by (induction nc cs rule: setCondition.induct) (auto simp: hasConditionWithStatus_def)

lemma updateDevice_has:
  "hasConditionWithStatus (conditionsOf (updateDevice t conditionType d)) conditionType ''True''"
  using setCondition_has [of "newCondition t (ads_Device d) conditionType"]
  by (simp add: updateDevice_def conditionsOf_def newCondition_def)

lemma updateDevices_run:
  "\<exists>ts s'. length ts = length ds \<and> calls s' = calls s \<and>
     updateDevices E conditionType ds s = (Ok (map2 (\<lambda>t d. updateDevice t conditionType d) ts ds), s')"
proof (induction ds arbitrary: s)
  case Nil
  then show ?case by (auto simp: run_simps)
next
  case (Cons d ds)
  obtain t s1 where now: "now E s = (Ok t, s1)" "calls s1 = calls s"
    by (cases "clock E (wld s)") (auto simp: now_def peekOp_def)
  from Cons [of s1] obtain ts s2 where "length ts = length ds" "calls s2 = calls s1"
    "updateDevices E conditionType ds s1 = (Ok (map2 (\<lambda>t d. updateDevice t conditionType d) ts ds), s2)"
    by blast
  with now show ?case
    by (intro exI [of _ "t # ts"] exI [of _ s2]) (simp add: run_simps)
qed

lemma marked_update:
  "length ts = length ds \<Longrightarrow> ds \<noteq> [] \<Longrightarrow> marked conditionType (map2 (\<lambda>t d. updateDevice t conditionType d) ts ds)"
  by (cases ts) (auto simp: marked_def list_all_iff updateDevice_has dest: set_zip_rightD)

interpretation conditions_patch: retry_attempt "conditionsAttempt E name namespace conditionType"
    "withoutDevices E name namespace" "\<lambda>c. \<exists>ds. c = PatchClaimStatus namespace name ds \<and> marked conditionType ds"
    for E name namespace conditionType
proof -
  have att: "(calls t = calls s \<and> (r = Ok None \<and> withoutDevices E name namespace (wld t) \<or> (\<exists>e. r = Fail e))) \<or>
      (\<exists>ds s' msg. marked conditionType ds \<and> calls s' = calls s \<and>
         patchOnce E msg (PatchClaimStatus namespace name ds) s' = (r, t))"
    if "conditionsAttempt E name namespace conditionType s = (r, t)" for s r t
  proof -
    have step: "(calls t = calls s' \<and> r = Ok None \<and> withoutDevices E name namespace (wld t)) \<or>
      (\<exists>ds s'' msg. marked conditionType ds \<and> calls s'' = calls s' \<and>
         patchOnce E msg (PatchClaimStatus namespace name ds) s'' = (r, t))"
      if "(if statusDevices rc = [] then ret None
           else andThen (updateDevices E conditionType (statusDevices rc)) (\<lambda>devices.
             patchOnce E ''failed to patch ResourceClaim status''
               (PatchClaimStatus namespace name devices))) s' = (r, t)"
        and read: "getResourceClaim E namespace name (wld s) = (Inr rc, wld s')" for rc s'
    proof (cases "statusDevices rc = []")
      case True
      with that show ?thesis by (auto simp: ret_def withoutDevices_def)
    next
      case False
      obtain ts s'' where ts: "length ts = length (statusDevices rc)" "calls s'' = calls s'"
        and upd: "updateDevices E conditionType (statusDevices rc) s' =
          (Ok (map2 (\<lambda>t d. updateDevice t conditionType d) ts (statusDevices rc)), s'')"
        using updateDevices_run by blast
      from that(1) False upd marked_update [OF ts(1) False] ts(2) show ?thesis
        by (auto simp: andThen_run(1))
    qed
    from read_then_cases [OF that [unfolded conditionsAttempt_def]] show ?thesis
      by (elim disjE exE conjE) (auto dest!: step)
  qed
  show "retry_attempt (conditionsAttempt E name namespace conditionType) (withoutDevices E name namespace)
    (\<lambda>c. \<exists>ds. c = PatchClaimStatus namespace name ds \<and> marked conditionType ds)"
    by unfold_locales (auto dest!: att patchOnce_cases)
qed

text \<open>What the four functions send.\<close>

lemma emits_patchNodeLabel [does_rules]:
  "(\<And>ok. P (PatchNodeLabels n (labelsPatch add del), ok)) \<Longrightarrow> emits P (patchNodeLabel E n add del)"
  unfolding patchNodeLabel_def by (rule does_weaken [OF node_patch.emits_retryLoop]) auto

lemma emits_PatchComposableResourceAnnotation [does_rules]:
  "(\<And>ok. P (PatchAnnotation n k v, ok)) \<Longrightarrow> emits P (PatchComposableResourceAnnotation E n k v)"
  unfolding PatchComposableResourceAnnotation_def
  by (rule does_weaken [OF annotation_patch.emits_retryLoop]) auto

lemma emits_PatchComposabilityRequestSize [does_rules]:
  "(\<And>ok. P (PatchRequestSize n cnt, ok)) \<Longrightarrow> emits P (PatchComposabilityRequestSize E n cnt)"
  unfolding PatchComposabilityRequestSize_def
  by (rule does_weaken [OF size_patch.emits_retryLoop]) auto

lemma emits_PatchResourceClaimDeviceConditions [does_rules]:
  "(\<And>ds ok. marked ty ds \<Longrightarrow> P (PatchClaimStatus ns n ds, ok)) \<Longrightarrow>
   emits P (PatchResourceClaimDeviceConditions E n ns ty)"
  unfolding PatchResourceClaimDeviceConditions_def
  by (rule does_weaken [OF conditions_patch.emits_retryLoop]) auto

text \<open>A claim's conditions are written without touching what the counting functions read.\<close>

lemma keeps_retryLoop [under_rules]: "keeps V attempt \<Longrightarrow> keeps V (retryLoop n attempt lastErr)"
  by (induction n arbitrary: lastErr) (auto intro!: under_rules)

context quiet_api
begin

lemma keeps_updateDevices [under_rules]: "keeps V (updateDevices E ty ds)"
  by (induction ds) (auto intro!: under_rules)

lemma keeps_PatchResourceClaimDeviceConditions [under_rules]:
  "stable E V \<Longrightarrow> keeps V (PatchResourceClaimDeviceConditions E name namespace conditionType)"
  unfolding PatchResourceClaimDeviceConditions_def conditionsAttempt_def patchOnce_def
  by (intro under_rules) auto

lemma keeps_PatchComposableResourceAnnotation [under_rules]:
  "stable E V \<Longrightarrow> keeps V (PatchComposableResourceAnnotation E name key val)"
  unfolding PatchComposableResourceAnnotation_def annotationAttempt_def patchOnce_def
  by (intro under_rules) auto

end

section \<open>Conditions\<close>

lemma setCondition_others:
  "filter (\<lambda>c. cond_Type c \<noteq> cond_Type nc) (setCondition nc cs) =
   filter (\<lambda>c. cond_Type c \<noteq> cond_Type nc) cs"
  by (induction nc cs rule: setCondition.induct) auto

lemma setCondition_types:
  "distinct (map cond_Type cs) \<Longrightarrow> distinct (map cond_Type (setCondition nc cs))"
proof (induction nc cs rule: setCondition.induct)
  case (2 nc c cs)
  have "set (map cond_Type (setCondition nc cs)) \<subseteq> insert (cond_Type nc) (set (map cond_Type cs))"
    by (induction nc cs rule: setCondition.induct) auto
  with 2 show ?case by auto
qed simp

lemma setCondition_idem:
  "cond_Type nc' = cond_Type nc \<Longrightarrow> cond_Status nc' = cond_Status nc \<Longrightarrow>
   setCondition nc' (setCondition nc cs) = setCondition nc cs"
  by (induction nc cs rule: setCondition.induct) auto

text \<open>What the controller reads back from a status it has written.\<close>

definition readsBack :: "(AllocatedDeviceStatus \<Rightarrow> string) \<Rightarrow> AllocatedDeviceStatus list \<Rightarrow> bool" where
  "readsBack state ds \<longleftrightarrow>
     (\<forall>a. dra_Device a \<in> ads_Device ` set ds \<longrightarrow>
        deviceState ds a = state (last (filter (\<lambda>d. ads_Device d = dra_Device a) ds)))"

definition failedState :: "AllocatedDeviceStatus \<Rightarrow> string" where
  "failedState d =
     (if hasConditionWithStatus (conditionsOf d) ''FabricDeviceReschedule'' ''True'' then ''Reschedule'' else ''Failed'')"

lemma foldl_statusStep_last:
  assumes "\<And>d st. d \<in> set ds \<Longrightarrow> ads_Device d = dra_Device a \<Longrightarrow> statusStep a st d = state d"
  shows "foldl (statusStep a) st ds =
    (if dra_Device a \<in> ads_Device ` set ds then state (last (filter (\<lambda>d. ads_Device d = dra_Device a) ds)) else st)"
  using assms
proof (induction ds rule: rev_induct)
  case (snoc d ds)
  have other: "statusStep a st d = st" if "ads_Device d \<noteq> dra_Device a" for st using that by simp
  from snoc other show ?case by (auto simp del: statusStep.simps)
qed simp

lemma marked_conditions:
  "marked ty ds \<Longrightarrow> d \<in> set ds \<Longrightarrow>
   \<exists>cs. ads_Conditions d = Some cs \<and> hasConditionWithStatus cs ty ''True''"
  by (cases "ads_Conditions d")
    (auto simp: marked_def list_all_iff conditionsOf_def hasConditionWithStatus_def dest!: bspec)

lemma marked_readsBack:
  assumes "marked ty ds"
    and "\<And>a d cs st. ads_Conditions d = Some cs \<Longrightarrow> hasConditionWithStatus cs ty ''True'' \<Longrightarrow>
           ads_Device d = dra_Device a \<Longrightarrow> statusStep a st d = state d"
  shows "readsBack state ds"
  unfolding readsBack_def
proof (intro allI impI)
  fix a :: AllocationDevice
  assume a: "dra_Device a \<in> ads_Device ` set ds"
  have "foldl (statusStep a) [] ds = state (last (filter (\<lambda>d. ads_Device d = dra_Device a) ds))"
  proof (subst foldl_statusStep_last)
    fix d st
    assume d: "d \<in> set ds" "ads_Device d = dra_Device a"
    from marked_conditions [OF assms(1) d(1)] obtain cs
      where "ads_Conditions d = Some cs" "hasConditionWithStatus cs ty ''True''" by blast
    then show "statusStep a st d = state d" using d(2) by (rule assms(2))
  qed (use a in simp)
  then show "deviceState ds a = state (last (filter (\<lambda>d. ads_Device d = dra_Device a) ds))"
    using assms(1) by (simp add: deviceState_def marked_def)
qed

lemma marked_Reschedule: "marked ''FabricDeviceReschedule'' ds \<Longrightarrow> readsBack (\<lambda>_. ''Reschedule'') ds"
  by (erule marked_readsBack) simp

lemma marked_Failed: "marked ''FabricDeviceFailed'' ds \<Longrightarrow> readsBack failedState ds"
  by (erule marked_readsBack) (simp add: failedState_def conditionsOf_def)

section \<open>Node labels\<close>

lemma map_of_foldl_update:
  "map_of (foldl (\<lambda>m l. AList.update l v m) m ls) k = (if k \<in> set ls then Some v else map_of m k)"
  by (induction ls arbitrary: m) (auto simp: update_conv')

lemma map_of_labelsPatch:
  "map_of (labelsPatch add del) k =
     (if k \<in> set del then Some None else if k \<in> set add then Some (Some ''true'') else None)"
  by (simp add: labelsPatch_def map_of_foldl_update)

lemma set_foldl_update:
  "set (foldl (\<lambda>m l. AList.update l v m) m ls) \<subseteq> set m \<union> {(l, v) | l. l \<in> set ls}"
proof (induction ls arbitrary: m)
  case (Cons l ls)
  have "set (AList.update l v m) \<subseteq> insert (l, v) (set m)"
    by (induction m) auto
  with Cons [of "AList.update l v m"] show ?case by auto
qed simp

lemma set_labelsPatch:
  "(k, v) \<in> set (labelsPatch add del) \<Longrightarrow> (k \<in> set add \<or> k \<in> set del) \<and> (v = None \<or> v = Some ''true'')"
  using set_foldl_update [of None "foldl (\<lambda>m l. AList.update l (Some ''true'') m) [] add" del]
    set_foldl_update [of "Some ''true''" "[]" add]
  by (auto simp: labelsPatch_def)

lemma set_addInstalled:
  "set (addInstalled p f installed xs) = set installed \<union> f ` {x \<in> set xs. p x}"
  by (induction xs arbitrary: installed) (auto simp: notIn_def)

text \<open>
  The abstract rule: a device may not be scheduled to a node when a model that is requested or
  online there cannot coexist with it, or when the node's limit for it is zero.
\<close>

definition modelPresent :: "string \<Rightarrow> ComposabilityRequest list \<Rightarrow> ComposableResource list \<Rightarrow> string \<Rightarrow> bool" where
  "modelPresent nodeName requests resources m \<longleftrightarrow>
     (\<exists>cr\<in>set requests. req_TargetNode cr = nodeName \<and> req_Size cr > 0 \<and> req_Model cr = m) \<or>
     (\<exists>rs\<in>set resources. cr_TargetNode rs = nodeName \<and> cr_State rs = ''Online'' \<and> cr_Model rs = m)"

definition excluded ::
    "NodeInfo \<Rightarrow> ComposableDRASpec \<Rightarrow> ComposabilityRequest list \<Rightarrow> ComposableResource list \<Rightarrow> int \<Rightarrow> bool" where
  "excluded node spec requests resources idx \<longleftrightarrow>
     (\<exists>info\<in>set (sp_DeviceInfos spec).
        modelPresent (ni_Name node) requests resources (di_CDIModelName info) \<and>
        idx \<in> set (di_CannotCoexistWith info)) \<or>
     (\<exists>mc\<in>set (ni_Models node). \<exists>info\<in>set (sp_DeviceInfos spec).
        mc_MaxDeviceSet mc \<and> mc_MaxDevice mc = 0 \<and>
        mc_DeviceName mc = di_K8sDeviceName info \<and> di_Index info = idx)"

lemma set_installedDevices:
  "m \<in> set (installedDevices n requests resources) \<longleftrightarrow> modelPresent n requests resources m"
  by (auto simp: installedDevices_def set_addInstalled modelPresent_def)

lemma set_notCoexistID:
  "idx \<in> set (notCoexistID (installedDevices (ni_Name node) requests resources) node spec) \<longleftrightarrow>
   excluded node spec requests resources idx"
  by (auto simp: notCoexistID_def excluded_def set_installedDevices [symmetric] split: if_splits)

lemma labelOf_inj:
  "labelOf spec i = labelOf spec j \<longleftrightarrow> di_K8sDeviceName i = di_K8sDeviceName j"
  by (simp add: labelOf_def)

definition intendedPatch ::
    "NodeInfo \<Rightarrow> ComposableDRASpec \<Rightarrow> ComposabilityRequest list \<Rightarrow> ComposableResource list \<Rightarrow>
     (string \<times> string option) list \<Rightarrow> bool" where
  "intendedPatch node spec requests resources p \<longleftrightarrow>
     (\<forall>info\<in>set (sp_DeviceInfos spec).
        map_of p (labelOf spec info) =
          Some (if \<exists>i\<in>set (sp_DeviceInfos spec). di_K8sDeviceName i = di_K8sDeviceName info \<and>
                     excluded node spec requests resources (di_Index i)
                then None else Some ''true'')) \<and>
     dom (map_of p) = labelOf spec ` set (sp_DeviceInfos spec)"

lemma intendedPatch_computed:
  fixes node spec requests resources
  defines "ids \<equiv> notCoexistID (installedDevices (ni_Name node) requests resources) node spec"
  shows "intendedPatch node spec requests resources (labelsPatch (addLabels spec ids) (deleteLabels spec ids))"
proof -
  have ids: "notIn i ids \<longleftrightarrow> \<not> excluded node spec requests resources i" for i
    by (simp add: notIn_def ids_def set_notCoexistID)
  show ?thesis
    unfolding intendedPatch_def map_of_labelsPatch addLabels_def deleteLabels_def
    by (auto simp: ids labelOf_inj image_iff dom_def map_of_labelsPatch split: if_splits)
qed

section \<open>Properties\<close>

text \<open>
  \<open>PatchComposabilityRequestSize\<close> sends at most \<open>maxRetries\<close> requests, all of them the
  patch to the wanted size; every request but the last is rejected, success means that the last one
  was accepted, failure that none was, and it never panics. No environment is fixed.
\<close>

lemma size_patch_trace:
  "\<exists>new. calls (snd (PatchComposabilityRequestSize E n cnt s)) = calls s @ new \<and>
     retry_trace True (\<lambda>c. c = PatchRequestSize n cnt) maxRetries
       (fst (PatchComposabilityRequestSize E n cnt s)) new"
  unfolding PatchComposabilityRequestSize_def using size_patch.retryLoop_trace by simp

text \<open>
  Property C23. \<open>PatchComposableResourceAnnotation\<close> has the same trace, except that it may succeed
  without an accepted write when the resource, as the last read returned it, already has the value; it
  does so, and writes nothing, when the annotation has the value at the start.
\<close>

theorem annotation_patch_trace:
  assumes "getComposableResource E n (wld s) = (Inr cr, w)"
  shows "\<exists>new. calls (snd (PatchComposableResourceAnnotation E n k v s)) = calls s @ new \<and>
     retry_trace (\<not> alreadyAnnotated E n k v (wld (snd (PatchComposableResourceAnnotation E n k v s))))
       (\<lambda>c. c = PatchAnnotation n k v) maxRetries
       (fst (PatchComposableResourceAnnotation E n k v s)) new \<and>
     (cr_Annotations cr k = Some v \<longrightarrow>
        fst (PatchComposableResourceAnnotation E n k v s) = Ok () \<and> new = [])"
proof (cases "cr_Annotations cr k = Some v")
  case True
  with assms have "annotationAttempt E n k v s = (Ok None, s\<lparr>wld := w\<rparr>)"
    by (simp add: annotationAttempt_def andThen_def wrapErr_def readOp_def ret_def)
  then have "PatchComposableResourceAnnotation E n k v s = (Ok (), s\<lparr>wld := w\<rparr>)"
    by (simp add: PatchComposableResourceAnnotation_def maxRetries_def numeral_2_eq_2 andThen_def ret_def)
  moreover have "alreadyAnnotated E n k v w" using assms True by (rule alreadyAnnotatedI)
  ultimately show ?thesis by (simp add: retry_trace_intros)
next
  case False
  then show ?thesis
    unfolding PatchComposableResourceAnnotation_def using annotation_patch.retryLoop_trace by blast
qed

theorem annotation_patch_trace_witness:
  "fst (PatchComposableResourceAnnotation (memEnv []) ''r0'' ''k'' ''v'' (sampleState []
     [(sampleResource ''r0'' ''A40'' ''GPU-0'')\<lparr>cr_Annotations := [''k'' \<mapsto> ''v'']\<rparr>] [])) = Ok ()"
proof -
  let ?r = "(sampleResource ''r0'' ''A40'' ''GPU-0'')\<lparr>cr_Annotations := [''k'' \<mapsto> ''v'']\<rparr>"
  let ?s = "sampleState [] [?r] []"
  have "getComposableResource (memEnv []) ''r0'' (wld ?s) = (Inr ?r, wld ?s)"
    by (simp add: sampleState_def sampleCluster_def sampleResource_def lookupBy_def)
  from annotation_patch_trace [OF this, of "''k''" "''v''"] show ?thesis by auto
qed

text \<open>
  Property C19. \<open>PatchResourceClaimDeviceConditions\<close> makes at most \<open>maxRetries\<close> calls, all of them patches of
  the claim's status that carry the condition with status \<open>True\<close> on every entry. It succeeds only when
  the last of them was accepted, or when the claim, as the last read returned it, has no devices to write
  a condition for; when it fails no patch was accepted; and it never panics.
\<close>

theorem conditions_patch_trace:
  "\<exists>new. calls (snd (PatchResourceClaimDeviceConditions E n ns ty s)) = calls s @ new \<and>
     retry_trace (\<not> withoutDevices E n ns (wld (snd (PatchResourceClaimDeviceConditions E n ns ty s))))
       (\<lambda>c. \<exists>ds. c = PatchClaimStatus ns n ds \<and> marked ty ds) maxRetries
       (fst (PatchResourceClaimDeviceConditions E n ns ty s)) new"
  unfolding PatchResourceClaimDeviceConditions_def by (rule conditions_patch.retryLoop_trace)

text \<open>
  Property C20. Round trip: a status that the reschedule notification has written is read back as
  \<open>Reschedule\<close> for every device with an entry. One that the failure notification has written is read back
  as \<open>Failed\<close> for a device whose entry does not also have the condition to reschedule, and as
  \<open>Reschedule\<close> for one whose entry does. Entries are found by the device's name; the last one counts.
\<close>

theorem written_conditions_read_back:
  "does (\<lambda>(c, ok). \<forall>ns' n' ds. c = PatchClaimStatus ns' n' ds \<longrightarrow> readsBack (\<lambda>_. ''Reschedule'') ds) (\<lambda>_. True)
     (PatchResourceClaimDeviceConditions E n ns ''FabricDeviceReschedule'') \<and>
   does (\<lambda>(c, ok). \<forall>ns' n' ds. c = PatchClaimStatus ns' n' ds \<longrightarrow> readsBack failedState ds) (\<lambda>_. True)
     (PatchResourceClaimDeviceConditions E n ns ''FabricDeviceFailed'')"
  by (intro conjI emits_PatchResourceClaimDeviceConditions) (auto intro: marked_Reschedule marked_Failed)

theorem written_conditions_read_back_witness:
  "\<exists>ds. calls (snd (PatchResourceClaimDeviceConditions (memEnv []) ''c1'' ''ns'' ''FabricDeviceFailed''
       (sampleState [sampleClaim ''c1'' 5 ''a40-fabric1''] [] []))) = [(PatchClaimStatus ''ns'' ''c1'' ds, True)] \<and>
     readsBack failedState ds"
proof -
  let ?m = "PatchResourceClaimDeviceConditions (memEnv []) ''c1'' ''ns'' ''FabricDeviceFailed''"
  let ?s = "sampleState [sampleClaim ''c1'' 5 ''a40-fabric1''] [] []"
  define ds where "ds = [\<lparr>ads_Driver = ''gpu.nvidia.com'', ads_Pool = ''a40-fabric1'', ads_Device = ''device-0'',
    ads_Conditions = Some [newCondition (Nanos 1000) ''device-0'' ''FabricDeviceFailed'']\<rparr>]"
  have run: "calls (snd (?m ?s)) = [(PatchClaimStatus ''ns'' ''c1'' ds, True)]"
    unfolding ds_def by code_simp
  have "calls ?s = []" by (simp add: sampleState_def)
  with doesD_calls [OF conjunct2 [OF written_conditions_read_back], of "memEnv []" "''c1''" "''ns''" ?s "fst (?m ?s)" "snd (?m ?s)"] run
  show ?thesis by auto
qed

text \<open>
  Property C21. The condition list after a write: the condition holds, the conditions of other types
  are untouched and in order, types stay unique, and writing the same condition again (at a later
  time) changes nothing, so that the transition time is the one of the first write.
\<close>

theorem condition_write_laws:
  "hasConditionWithStatus (setCondition nc cs) (cond_Type nc) (cond_Status nc) \<and>
   filter (\<lambda>c. cond_Type c \<noteq> cond_Type nc) (setCondition nc cs) = filter (\<lambda>c. cond_Type c \<noteq> cond_Type nc) cs \<and>
   setCondition (nc\<lparr>cond_LastTransitionTime := t\<rparr>) (setCondition nc cs) = setCondition nc cs \<and>
   (distinct (map cond_Type cs) \<longrightarrow> distinct (map cond_Type (setCondition nc cs)))"
  using setCondition_has setCondition_others setCondition_idem setCondition_types by auto

theorem condition_write_laws_witness:
  "distinct (map cond_Type (setCondition (newCondition (Nanos 2) ''d'' ''B'') [newCondition (Nanos 1) ''d'' ''A'']))"
  using condition_write_laws [of "newCondition (Nanos 2) ''d'' ''B''" "[newCondition (Nanos 1) ''d'' ''A'']"] by simp

text \<open>The labels of a node as the rule wants them: one per configured device, the others as before.\<close>

definition labelsRight ::
    "NodeInfo \<Rightarrow> ComposableDRASpec \<Rightarrow> ComposabilityRequest list \<Rightarrow> ComposableResource list \<Rightarrow>
     (string \<times> string) list \<Rightarrow> (string \<times> string) list \<Rightarrow> bool" where
  "labelsRight node spec requests resources ls ls' \<longleftrightarrow>
     (\<forall>k. map_of ls' k =
        (if k \<in> labelOf spec ` set (sp_DeviceInfos spec)
         then if \<exists>i\<in>set (sp_DeviceInfos spec). labelOf spec i = k \<and> excluded node spec requests resources (di_Index i)
              then None else Some ''true''
         else map_of ls k))"

lemma map_of_patchLabels:
  assumes "distinct (map fst p)"
  shows "map_of (patchLabels p ls) k = (case map_of p k of None \<Rightarrow> map_of ls k | Some ov \<Rightarrow> ov)"
proof -
  have kept: "map_of (filter (\<lambda>(k, v). map_of p k = None) ls) k = (if map_of p k = None then map_of ls k else None)"
    by (induction ls) auto
  have added: "map_of (concat (map (\<lambda>(k, ov). case ov of None \<Rightarrow> [] | Some v \<Rightarrow> [(k, v)]) q)) k =
      (case map_of q k of None \<Rightarrow> None | Some ov \<Rightarrow> ov)" if "distinct (map fst q)" for q :: "(string \<times> string option) list"
    using that
  proof (induction q)
    case (Cons e q)
    obtain k' ov where e: "e = (k', ov)" by (cases e)
    have "k' = k \<Longrightarrow> map_of q k = None" using Cons.prems e by (auto simp: map_of_eq_None_iff)
    with Cons e show ?case by (auto split: option.splits)
  qed simp
  show ?thesis
    unfolding patchLabels_def map_of_append map_add_def added [OF assms] kept
    by (auto split: option.split)
qed

lemma distinct_labelsPatch: "distinct (map fst (labelsPatch add del))"
proof -
  have "distinct (map fst m) \<Longrightarrow> distinct (map fst (foldl (\<lambda>m l. AList.update l v m) m ls))"
    for m :: "(string \<times> string option) list" and v ls
    by (induction ls arbitrary: m) (auto simp: distinct_update)
  then show ?thesis by (simp add: labelsPatch_def)
qed

lemma intendedPatch_right:
  assumes "intendedPatch node spec requests resources p" and "distinct (map fst p)"
  shows "labelsRight node spec requests resources ls (patchLabels p ls)"
  unfolding labelsRight_def map_of_patchLabels [OF assms(2)]
proof
  fix k
  show "(case map_of p k of None \<Rightarrow> map_of ls k | Some ov \<Rightarrow> ov) =
      (if k \<in> labelOf spec ` set (sp_DeviceInfos spec)
       then if \<exists>i\<in>set (sp_DeviceInfos spec). labelOf spec i = k \<and> excluded node spec requests resources (di_Index i)
            then None else Some ''true''
       else map_of ls k)"
  proof (cases "k \<in> labelOf spec ` set (sp_DeviceInfos spec)")
    case True
    then obtain info where "info \<in> set (sp_DeviceInfos spec)" "k = labelOf spec info" by blast
    with assms(1) True show ?thesis by (simp add: intendedPatch_def labelOf_inj)
  next
    case False
    with assms(1) have "map_of p k = None" by (auto simp: intendedPatch_def dom_def)
    with False show ?thesis by simp
  qed
qed

lemma retry_trace_mono:
  assumes "retry_trace must C n r new" and "\<And>c. C c \<Longrightarrow> C' c"
  shows "retry_trace must C' n r new"
proof -
  from assms(1) obtain rej acc where ra: "new = rej @ acc" "length new \<le> n"
    "list_all (\<lambda>(c, ok). C c \<and> \<not> ok) rej"
    "case r of Ok _ \<Rightarrow> (\<not> must \<and> acc = []) \<or> (\<exists>c. C c \<and> acc = [(c, True)])
     | Fail _ \<Rightarrow> acc = [] | Panic _ \<Rightarrow> False"
    unfolding retry_trace_def by blast
  have "list_all (\<lambda>(c, ok). C' c \<and> \<not> ok) rej"
    using ra(3) assms(2) by (auto simp: list_all_iff)
  with ra assms(2) show ?thesis
    unfolding retry_trace_def
    by (intro exI [of _ rej] exI [of _ acc]) (auto split: outcome.splits)
qed

definition labelIds ::
    "NodeInfo \<Rightarrow> ComposableDRASpec \<Rightarrow> ComposabilityRequest list \<Rightarrow> ComposableResource list \<Rightarrow> int list" where
  "labelIds node spec requests resources = notCoexistID (installedDevices (ni_Name node) requests resources) node spec"

context snapshot_api
begin

lemma UpdateNodeLabel_run:
  "UpdateNodeLabel E node spec s =
     patchNodeLabel E (ni_Name node)
       (addLabels spec (labelIds node spec (requestsOf (wld s)) (resourcesOf (wld s))))
       (deleteLabels spec (labelIds node spec (requestsOf (wld s)) (resourcesOf (wld s)))) s"
  by (simp add: UpdateNodeLabel_def Let_def labelIds_def andThen_def wrapErr_def read_requests read_resources)

end

text \<open>
  \<open>UpdateNodeLabel\<close> sends, as a retried write, only the intended patch of the node: the
  label of a configured device is set to \<open>"true"\<close>, or deleted when a model requested or online on the
  node cannot coexist with it or the node's maximum for it is zero; no other label is touched.
\<close>

lemma node_label_patch_intended:
  assumes "snapshot_api E claimsOf resourcesOf requestsOf"
  shows "\<exists>new. calls (snd (UpdateNodeLabel E node spec s)) = calls s @ new \<and>
    retry_trace True (\<lambda>c. \<exists>p. c = PatchNodeLabels (ni_Name node) p \<and>
        intendedPatch node spec (requestsOf (wld s)) (resourcesOf (wld s)) p)
      maxRetries (fst (UpdateNodeLabel E node spec s)) new"
proof -
  let ?ids = "labelIds node spec (requestsOf (wld s)) (resourcesOf (wld s))"
  let ?p = "labelsPatch (addLabels spec ?ids) (deleteLabels spec ?ids)"
  have intended: "intendedPatch node spec (requestsOf (wld s)) (resourcesOf (wld s)) ?p"
    unfolding labelIds_def by (rule intendedPatch_computed)
  let ?run = "retryLoop maxRetries (patchOnce E ''patch failed'' (PatchNodeLabels (ni_Name node) ?p)) None s"
  obtain new where calls: "calls (snd ?run) = calls s @ new"
    and tr: "retry_trace True (\<lambda>c. c = PatchNodeLabels (ni_Name node) ?p) maxRetries (fst ?run) new"
    using node_patch.retryLoop_trace unfolding not_False_eq_True by blast
  have "retry_trace True (\<lambda>c. \<exists>p. c = PatchNodeLabels (ni_Name node) p \<and>
      intendedPatch node spec (requestsOf (wld s)) (resourcesOf (wld s)) p) maxRetries (fst ?run) new"
    using tr by (rule retry_trace_mono) (simp add: intended)
  with calls show ?thesis
    unfolding snapshot_api.UpdateNodeLabel_run [OF assms] patchNodeLabel_def by (intro exI [of _ new] conjI)
qed

end
