(* ===== verification/DeviceUtils.thy ===== *)
theory DeviceUtils
  imports PatchUtils
begin

text \<open>
  \<open>src/internal/utils/device_utils.go\<close>: how many devices a node needs, and the requests that
  attach and detach devices; with \<open>isLastUsedOverThreshold\<close> of \<open>reschedule_utils.go\<close>, which
  \<open>getNextSize\<close> calls.
\<close>

section \<open>Definitions\<close>

definition isLastUsedOverThreshold ::
    "'w env \<Rightarrow> ComposableResource \<Rightarrow> string \<Rightarrow> int \<Rightarrow> bool \<Rightarrow> ('w, bool) io" where
  "isLastUsedOverThreshold E resource labelPrefix threshold useCreateTimeWhenNotExists =
     (case cr_Annotations resource (labelPrefix @ ''/last-used-time'') of
        Some lastUsedStr \<Rightarrow>
          (case parseRFC3339 E lastUsedStr of
             Inl err \<Rightarrow> raise (Wrap ''failed to parse time'' (Msg err))
           | Inr lastUsedTime \<Rightarrow>
               andThen (now E) (\<lambda>t. ret (Sub t lastUsedTime > threshold)))
      | None \<Rightarrow>
          if useCreateTimeWhenNotExists
          then if IsZero (cr_CreationTimestamp resource)
               then raise (Msg ''creation timestamp is missing'')
               else andThen (now E) (\<lambda>t. ret (Sub t (cr_CreationTimestamp resource) > threshold))
          else ret True)"

definition getPreparingRescheduleDevicesCount ::
    "ResourceClaimInfo list \<Rightarrow> string \<Rightarrow> string \<Rightarrow> int" where
  "getPreparingRescheduleDevicesCount infos model nodeName =
     foldl (\<lambda>cnt rc.
              if rci_NodeName rc \<noteq> nodeName then cnt
              else foldl (\<lambda>cnt device.
                            if rcd_Model device = model \<and>
                               (rcd_State device = ''Preparing'' \<or> rcd_State device = ''Reschedule'')
                            then cnt + 1 else cnt) cnt (rci_Devices rc)) 0 infos"

text \<open>\<open>IsDeviceResourceSliceRed\<close>: the first slice device with that UUID, and its slice.\<close>

fun IsDeviceResourceSliceRed ::
    "string \<Rightarrow> ResourceSliceInfo list \<Rightarrow> (ResourceSliceInfo \<times> string) option" where
  "IsDeviceResourceSliceRed deviceID [] = None"
| "IsDeviceResourceSliceRed deviceID (rs # rss) =
     (case find (\<lambda>d. rsd_UUID d = deviceID) (rsi_Devices rs) of
        Some d \<Rightarrow> Some (rs, rsd_Name d)
      | None \<Rightarrow> IsDeviceResourceSliceRed deviceID rss)"

definition claimUses :: "string \<Rightarrow> ResourceSliceInfo \<Rightarrow> ResourceClaim \<Rightarrow> bool" where
  "claimUses deviceName slice rc \<longleftrightarrow>
     (case rc_Allocation rc of
        None \<Rightarrow> False
      | Some al \<Rightarrow> list_ex (\<lambda>a. rsi_Pool slice = dra_Pool a \<and> rsi_Driver slice = dra_Driver a \<and>
                               deviceName = dra_Device a) (al_Results al))"

definition IsDeviceUsedByPod :: "'w env \<Rightarrow> string \<Rightarrow> ResourceSliceInfo \<Rightarrow> ('w, bool) io" where
  "IsDeviceUsedByPod E deviceName slice =
     andThen (wrapErr ''failed to list ResourceClaims'' (readOp (listResourceClaims E))) (\<lambda>claims.
     ret (list_ex (claimUses deviceName slice) claims))"

definition getPodAllocatedDevicesCount ::
    "'w env \<Rightarrow> string \<Rightarrow> string \<Rightarrow> ResourceSliceInfo list \<Rightarrow> ('w, int) io" where
  "getPodAllocatedDevicesCount E model nodeName slices =
     andThen (wrapErr ''failed to list composableResourceList''
       (readOp (listComposableResources E))) (\<lambda>resources.
     foldM (\<lambda>cnt resource.
       if cr_TargetNode resource \<noteq> nodeName then ret cnt
       else if cr_Model resource = model \<and> cr_State resource = ''Online'' then
         (case IsDeviceResourceSliceRed (cr_DeviceID resource) slices of
            None \<Rightarrow> ret cnt
          | Some (slice, deviceName) \<Rightarrow>
              andThen (IsDeviceUsedByPod E deviceName slice) (\<lambda>isUsed.
              ret (if isUsed then cnt + 1 else cnt)))
       else ret cnt) 0 resources)"

definition GetConfiguredDeviceCount ::
    "'w env \<Rightarrow> string \<Rightarrow> string \<Rightarrow> ResourceClaimInfo list \<Rightarrow> ResourceSliceInfo list \<Rightarrow> ('w, int) io" where
  "GetConfiguredDeviceCount E model nodeName infos slices =
     andThen (getPodAllocatedDevicesCount E model nodeName slices) (\<lambda>podAllocated.
     ret (getPreparingRescheduleDevicesCount infos model nodeName + podAllocated))"

definition createNewComposabilityRequestCR ::
    "'w env \<Rightarrow> int \<Rightarrow> string \<Rightarrow> string \<Rightarrow> string \<Rightarrow> ('w, unit) io" where
  "createNewComposabilityRequestCR E cnt resourceType model node =
     andThen (issue E (CreateRequest ''composability-'' resourceType model cnt node)) (\<lambda>r.
       case r of
         None \<Rightarrow> ret ()
       | Some err \<Rightarrow> raise (Wrap ''failed to create ComposabilityRequest'' (ApiErr err)))"

definition DynamicAttach ::
    "'w env \<Rightarrow> ComposabilityRequest option \<Rightarrow> int \<Rightarrow> string \<Rightarrow> string \<Rightarrow> string \<Rightarrow> ('w, unit) io" where
  "DynamicAttach E cr cnt resourceType model nodeName =
     (case cr of
        None \<Rightarrow> createNewComposabilityRequestCR E cnt resourceType model nodeName
      | Some r \<Rightarrow> PatchComposabilityRequestSize E (req_Name r) cnt)"

definition keepsDevice :: "string \<Rightarrow> ComposableResource \<Rightarrow> bool" where
  "keepsDevice nodeName resource \<longleftrightarrow>
     (cr_State resource = ''Online'' \<or> cr_State resource = ''Attaching'') \<and>
     cr_TargetNode resource = nodeName \<and> cr_DeletionTimestamp resource = None"

definition getNextSize :: "'w env \<Rightarrow> int \<Rightarrow> string \<Rightarrow> string \<Rightarrow> int \<Rightarrow> ('w, int) io" where
  "getNextSize E cnt nodeName labelPrefix deviceNoRemoval =
     andThen (wrapErr ''failed to list ComposableResourceList''
       (readOp (listComposableResources E))) (\<lambda>resources.
     andThen (foldM (\<lambda>resourceCount resource.
         if keepsDevice nodeName resource then
           andThen (isLastUsedOverThreshold E resource labelPrefix deviceNoRemoval True) (\<lambda>over.
           ret (if \<not> over then resourceCount + 1 else resourceCount))
         else ret resourceCount) 0 resources) (\<lambda>resourceCount.
     ret (if cnt > resourceCount then cnt else resourceCount)))"

definition DynamicDetach ::
    "'w env \<Rightarrow> ComposabilityRequest \<Rightarrow> int \<Rightarrow> string \<Rightarrow> string \<Rightarrow> int \<Rightarrow> ('w, unit) io" where
  "DynamicDetach E cr cnt nodeName labelPrefix deviceNoRemoval =
     andThen (wrapErr ''failed to get next size''
       (getNextSize E cnt nodeName labelPrefix deviceNoRemoval)) (\<lambda>nextSize.
     if nextSize < req_Size cr then PatchComposabilityRequestSize E (req_Name cr) nextSize
     else ret ())"

definition GetDriverType :: "string \<Rightarrow> string" where
  "GetDriverType model = (if model = ''gpu.nvidia.com'' then ''gpu'' else [])"

section \<open>What the functions send and return\<close>

lemma silent_isLastUsedOverThreshold [does_rules]:
  "emits P (isLastUsedOverThreshold E resource labelPrefix threshold b)"
  unfolding isLastUsedOverThreshold_def
  by (auto intro!: does_rules split: option.split sum.split)

lemma silent_IsDeviceUsedByPod [does_rules]: "emits P (IsDeviceUsedByPod E d slice)"
  unfolding IsDeviceUsedByPod_def by (intro does_rules) simp

lemma does_getPodAllocatedDevicesCount:
  "does P (\<lambda>n. 0 \<le> n) (getPodAllocatedDevicesCount E model nodeName slices)"
  unfolding getPodAllocatedDevicesCount_def
  by (intro does_seq does_wrapErr does_readOp does_foldM) (auto intro!: does_rules)

lemma getPreparing_eq:
  "getPreparingRescheduleDevicesCount infos model nodeName =
     (\<Sum>rc \<leftarrow> filter (\<lambda>rc. rci_NodeName rc = nodeName) infos.
        int (length (filter (\<lambda>d. rcd_Model d = model \<and>
          (rcd_State d = ''Preparing'' \<or> rcd_State d = ''Reschedule'')) (rci_Devices rc))))"
proof -
  have "foldl (\<lambda>cnt rc. if rci_NodeName rc \<noteq> nodeName then cnt
          else foldl (\<lambda>cnt device. if rcd_Model device = model \<and>
                 (rcd_State device = ''Preparing'' \<or> rcd_State device = ''Reschedule'')
               then cnt + 1 else cnt) cnt (rci_Devices rc)) k infos =
        k + (\<Sum>rc \<leftarrow> filter (\<lambda>rc. rci_NodeName rc = nodeName) infos.
        int (length (filter (\<lambda>d. rcd_Model d = model \<and>
          (rcd_State d = ''Preparing'' \<or> rcd_State d = ''Reschedule'')) (rci_Devices rc))))" for k
    by (induction infos arbitrary: k) (auto simp: count_foldl)
  then show ?thesis by (simp add: getPreparingRescheduleDevicesCount_def)
qed

lemma getPreparing_nonneg: "0 \<le> getPreparingRescheduleDevicesCount infos model nodeName"
  unfolding getPreparing_eq by (rule sum_list_nonneg) auto

lemma does_GetConfiguredDeviceCount:
  "does P (\<lambda>n. 0 \<le> n) (GetConfiguredDeviceCount E model nodeName infos slices)"
  unfolding GetConfiguredDeviceCount_def
  by (rule does_andThen [OF does_getPodAllocatedDevicesCount])
    (auto intro!: does_rules add_nonneg_nonneg getPreparing_nonneg)

lemma emits_GetConfiguredDeviceCount [does_rules]:
  "emits P (GetConfiguredDeviceCount E model nodeName infos slices)"
  using does_GetConfiguredDeviceCount by (rule does_True)

lemma does_getNextSize:
  "does P (\<lambda>n. cnt \<le> n) (getNextSize E cnt nodeName labelPrefix d)"
  unfolding getNextSize_def by (intro does_rules) auto

lemma emits_DynamicAttach [does_rules]:
  "(\<And>ok r. cr = Some r \<Longrightarrow> P (PatchRequestSize (req_Name r) cnt, ok)) \<Longrightarrow>
   (\<And>ok. cr = None \<Longrightarrow> P (CreateRequest ''composability-'' ty model cnt n, ok)) \<Longrightarrow>
   emits P (DynamicAttach E cr cnt ty model n)"
  unfolding DynamicAttach_def createNewComposabilityRequestCR_def
  by (auto intro!: does_rules split: option.split)

lemma emits_DynamicDetach [does_rules]:
  "(\<And>ok sz. cnt \<le> sz \<Longrightarrow> sz < req_Size cr \<Longrightarrow> P (PatchRequestSize (req_Name cr) sz, ok)) \<Longrightarrow>
   emits P (DynamicDetach E cr cnt n labelPrefix d)"
  unfolding DynamicDetach_def
  by (rule does_andThen [OF does_wrapErr [OF does_getNextSize]]) (auto intro!: does_rules)

section \<open>Counting against a snapshot\<close>

text \<open>The red device of an online resource, if a pod uses it.\<close>

definition usedByPod :: "ResourceClaim list \<Rightarrow> ResourceSliceInfo list \<Rightarrow> ComposableResource \<Rightarrow> bool" where
  "usedByPod claims slices resource \<longleftrightarrow>
     (case IsDeviceResourceSliceRed (cr_DeviceID resource) slices of
        None \<Rightarrow> False
      | Some (slice, deviceName) \<Rightarrow> list_ex (claimUses deviceName slice) claims)"

text \<open>The reference count: the devices that claims wait for and the devices that pods use.\<close>

definition podAllocated ::
    "ResourceClaim list \<Rightarrow> ComposableResource list \<Rightarrow> ResourceSliceInfo list \<Rightarrow> string \<Rightarrow> string \<Rightarrow> int" where
  "podAllocated claims resources slices model nodeName =
     int (length (filter (\<lambda>r. cr_TargetNode r = nodeName \<and> cr_Model r = model \<and>
       cr_State r = ''Online'' \<and> usedByPod claims slices r) resources))"

definition configuredCount ::
    "ResourceClaim list \<Rightarrow> ComposableResource list \<Rightarrow> ResourceClaimInfo list \<Rightarrow> ResourceSliceInfo list \<Rightarrow>
     string \<Rightarrow> string \<Rightarrow> int" where
  "configuredCount claims resources infos slices model nodeName =
     getPreparingRescheduleDevicesCount infos model nodeName +
     podAllocated claims resources slices model nodeName"

lemma IsDeviceResourceSliceRed_Some:
  "IsDeviceResourceSliceRed i slices = Some (slice, n) \<Longrightarrow>
     slice \<in> set slices \<and> (\<exists>d\<in>set (rsi_Devices slice). rsd_UUID d = i \<and> rsd_Name d = n)"
  by (induction slices) (auto simp: find_Some_iff split: option.splits)

lemma IsDeviceResourceSliceRed_None:
  "IsDeviceResourceSliceRed i slices = None \<longleftrightarrow>
     (\<forall>slice\<in>set slices. \<forall>d\<in>set (rsi_Devices slice). rsd_UUID d \<noteq> i)"
  by (induction slices) (auto simp: find_None_iff find_Some_iff split: option.splits)

context snapshot_api
begin

lemma IsDeviceUsedByPod_run [run_simps]:
  "IsDeviceUsedByPod E d slice s = (Ok (list_ex (claimUses d slice) (claimsOf (wld s))), s)"
  by (simp add: IsDeviceUsedByPod_def run_simps)

lemma getPodAllocatedDevicesCount_run:
  "getPodAllocatedDevicesCount E model nodeName slices s =
     (Ok (podAllocated (claimsOf (wld s)) (resourcesOf (wld s)) slices model nodeName), s)"
  unfolding getPodAllocatedDevicesCount_def podAllocated_def andThen_run(1) [OF wrapErr_run(1) [OF read_resources]]
  by (subst foldM_count [where p = "\<lambda>r. cr_TargetNode r = nodeName \<and> cr_Model r = model \<and>
       cr_State r = ''Online'' \<and> usedByPod (claimsOf (wld s)) slices r"])
    (auto simp: run_simps usedByPod_def split: option.split)

lemma GetConfiguredDeviceCount_run [run_simps]:
  "GetConfiguredDeviceCount E model nodeName infos slices s =
     (Ok (configuredCount (claimsOf (wld s)) (resourcesOf (wld s)) infos slices model nodeName), s)"
  by (simp add: GetConfiguredDeviceCount_def getPodAllocatedDevicesCount_run run_simps configuredCount_def)

end

text \<open>The counts depend on the resources and the claims only through what they read of them.\<close>

lemma usedByPod_cong:
  "cr_DeviceID r' = cr_DeviceID r \<Longrightarrow> map rc_Allocation claims' = map rc_Allocation claims \<Longrightarrow>
   usedByPod claims' slices r' = usedByPod claims slices r"
proof -
  assume a: "cr_DeviceID r' = cr_DeviceID r" "map rc_Allocation claims' = map rc_Allocation claims"
  have view: "list_ex (claimUses d sl) cs = list_ex (\<lambda>al. case al of None \<Rightarrow> False
      | Some x \<Rightarrow> list_ex (\<lambda>a. rsi_Pool sl = dra_Pool a \<and> rsi_Driver sl = dra_Driver a \<and> d = dra_Device a)
          (al_Results x)) (map rc_Allocation cs)" for d sl cs
    by (induction cs) (simp_all add: claimUses_def)
  have "list_ex (claimUses d sl) claims' = list_ex (claimUses d sl) claims" for d sl
    unfolding view a(2) ..
  then show ?thesis using a(1) by (simp add: usedByPod_def split: option.split)
qed

lemma podAllocated_cong:
  assumes "map resource_view resources' = map resource_view resources"
    and "map rc_Allocation claims' = map rc_Allocation claims"
  shows "podAllocated claims' resources' slices model nodeName =
         podAllocated claims resources slices model nodeName"
proof -
  have "length (filter (\<lambda>r. cr_TargetNode r = nodeName \<and> cr_Model r = model \<and>
       cr_State r = ''Online'' \<and> usedByPod claims' slices r) resources') =
     length (filter (\<lambda>r. cr_TargetNode r = nodeName \<and> cr_Model r = model \<and>
       cr_State r = ''Online'' \<and> usedByPod claims slices r) resources)"
    using assms(1)
  proof (induction resources' arbitrary: resources)
    case (Cons r' rs')
    then obtain r rs where "resources = r # rs" "resource_view r' = resource_view r"
      "map resource_view rs' = map resource_view rs" by auto
    moreover from this have "cr_Model r' = cr_Model r" "cr_TargetNode r' = cr_TargetNode r"
      "cr_State r' = cr_State r" "usedByPod claims' slices r' = usedByPod claims slices r"
      using usedByPod_cong [OF _ assms(2)] by (auto simp: resource_view_def)
    ultimately show ?case using Cons.IH [of rs] by simp
  qed simp
  then show ?thesis by (simp add: podAllocated_def)
qed

section \<open>Properties\<close>

text \<open>
  Property C18. Against a snapshot, \<open>GetConfiguredDeviceCount\<close> is the reference count: the devices
  in state \<open>Preparing\<close> or \<open>Reschedule\<close> of the claims of the node, and the online resources of the
  node and model whose device a pod uses. It always succeeds and reads only.
\<close>

theorem configured_count_reference:
  assumes "snapshot_api E claimsOf resourcesOf requestsOf"
  shows "GetConfiguredDeviceCount E model n infos slices s =
    (Ok ((\<Sum>rc \<leftarrow> filter (\<lambda>rc. rci_NodeName rc = n) infos.
            int (length (filter (\<lambda>d. rcd_Model d = model \<and>
              (rcd_State d = ''Preparing'' \<or> rcd_State d = ''Reschedule'')) (rci_Devices rc)))) +
         int (length (filter (\<lambda>r. cr_TargetNode r = n \<and> cr_Model r = model \<and> cr_State r = ''Online'' \<and>
              usedByPod (claimsOf (wld s)) slices r) (resourcesOf (wld s))))), s)"
  using snapshot_api.GetConfiguredDeviceCount_run [OF assms]
  by (simp add: configuredCount_def podAllocated_def getPreparing_eq)

theorem configured_count_reference_witness:
  "fst (GetConfiguredDeviceCount (memEnv []) ''A40'' ''n1'' [sampleInfo 0 ''c1'' 5 [''A40'', ''T4'']] [sampleSliceInfo]
      (sampleState [(sampleClaim ''c2'' 5 ''n1'')\<lparr>rc_Allocation := Some \<lparr>al_Results = [sampleAllocated ''n1'' ''gpu-0''],
         al_NodeSelector = None\<rparr>\<rparr>] [sampleResource ''r0'' ''A40'' ''GPU-0''] [])) = Ok 2"
  using configured_count_reference [OF mem.snapshot_api_axioms, of "[]" "''A40''" "''n1''"]
  by (simp add: sample_defs usedByPod_def claimUses_def)

text \<open>
  In every environment, \<open>DynamicDetach\<close> sends nothing but patches of the given request
  to sizes that are at least the wanted count and less than the present size: it never grows a
  request and never cuts below what is wanted.
\<close>

lemma detach_within_bounds:
  "does (\<lambda>(c, ok). \<exists>sz. c = PatchRequestSize (req_Name cr) sz \<and> cnt \<le> sz \<and> sz < req_Size cr) (\<lambda>_. True)
     (DynamicDetach E cr cnt n labelPrefix d)"
  by (rule emits_DynamicDetach) auto

text \<open>When a device was last used, as the code reads it; \<open>None\<close> where it fails.\<close>

definition lastUse :: "'w env \<Rightarrow> string \<Rightarrow> ComposableResource \<Rightarrow> gotime option" where
  "lastUse E labelPrefix r =
     (case cr_Annotations r (labelPrefix @ ''/last-used-time'') of
        Some str \<Rightarrow> (case parseRFC3339 E str of Inl _ \<Rightarrow> None | Inr u \<Rightarrow> Some u)
      | None \<Rightarrow> if IsZero (cr_CreationTimestamp r) then None else Some (cr_CreationTimestamp r))"

definition recentlyUsed :: "'w env \<Rightarrow> gotime \<Rightarrow> string \<Rightarrow> int \<Rightarrow> ComposableResource \<Rightarrow> bool" where
  "recentlyUsed E t labelPrefix d r \<longleftrightarrow> (\<exists>u. lastUse E labelPrefix r = Some u \<and> Sub t u \<le> d)"

lemma recentlyUsed_code [code]:
  "recentlyUsed E t labelPrefix d r = (case lastUse E labelPrefix r of None \<Rightarrow> False | Some u \<Rightarrow> Sub t u \<le> d)"
  by (auto simp: recentlyUsed_def split: option.split)

context quiet_api
begin

lemma isLastUsedOverThreshold_run:
  assumes "lastUse E labelPrefix r = Some u"
  shows "isLastUsedOverThreshold E r labelPrefix d True s = (Ok (Sub (fst (clock E (wld s))) u > d), s)"
  using assms
  by (auto simp: isLastUsedOverThreshold_def lastUse_def run_simps split: option.splits sum.splits if_splits)

lemma getNextSize_run:
  assumes "\<And>r. r \<in> set (resourcesOf (wld s)) \<Longrightarrow> keepsDevice n r \<Longrightarrow> lastUse E labelPrefix r \<noteq> None"
  shows "getNextSize E cnt n labelPrefix d s =
    (Ok (max cnt (int (length (filter (\<lambda>r. keepsDevice n r \<and> recentlyUsed E (fst (clock E (wld s))) labelPrefix d r)
       (resourcesOf (wld s)))))), s)"
proof -
  let ?p = "\<lambda>r. keepsDevice n r \<and> recentlyUsed E (fst (clock E (wld s))) labelPrefix d r"
  let ?f = "\<lambda>c r. if keepsDevice n r then
      andThen (isLastUsedOverThreshold E r labelPrefix d True) (\<lambda>over. ret (if \<not> over then c + 1 else c)) else ret c"
  have "?f c r s = (Ok (if ?p r then c + 1 else c), s)" if "r \<in> set (resourcesOf (wld s))" for c :: int and r
  proof (cases "keepsDevice n r")
    case True
    with assms that obtain u where u: "lastUse E labelPrefix r = Some u" by blast
    show ?thesis
      using True by (simp add: andThen_run(1) [OF isLastUsedOverThreshold_run [OF u]] ret_run recentlyUsed_def u not_less)
  qed (simp add: ret_run)
  then have loop: "foldM ?f 0 (resourcesOf (wld s)) s = (Ok (0 + int (length (filter ?p (resourcesOf (wld s))))), s)"
    by (rule foldM_count)
  show ?thesis
    unfolding getNextSize_def andThen_run(1) [OF wrapErr_run(1) [OF read_resources]] andThen_run(1) [of "foldM ?f 0 _", OF loop]
    by (simp add: ret_run max_def)
qed

end

text \<open>
  Property C17. Against a snapshot, the next size of a request is the larger of the wanted count and
  the number of devices of the node, of any model, that are online or attaching, not being deleted and
  were used (or created) within the no-removal time, provided the last use of each can be read.
\<close>

theorem next_size_reference:
  assumes "quiet_api E claimsOf resourcesOf requestsOf"
    and "\<forall>r\<in>set (resourcesOf (wld s)). keepsDevice n r \<longrightarrow> lastUse E labelPrefix r \<noteq> None"
  shows "getNextSize E cnt n labelPrefix d s =
    (Ok (max cnt (int (length (filter (\<lambda>r. keepsDevice n r \<and> recentlyUsed E (fst (clock E (wld s))) labelPrefix d r)
       (resourcesOf (wld s)))))), s)"
  using assms(2) by (intro quiet_api.getNextSize_run [OF assms(1)]) blast

theorem next_size_reference_witness:
  "fst (getNextSize (memEnv []) 0 ''n1'' ''co.hdi'' 900
     (sampleState [] [sampleResource ''r0'' ''A40'' ''GPU-0'', sampleResource ''r1'' ''T4'' ''GPU-1''] [])) = Ok 2"
proof -
  let ?rs = "[sampleResource ''r0'' ''A40'' ''GPU-0'', sampleResource ''r1'' ''T4'' ''GPU-1'']"
  let ?s = "sampleState [] ?rs []"
  have rs: "cl_resources (wld ?s) = ?rs" "fst (clock (memEnv []) (wld ?s)) = Nanos 1000"
    by (simp_all add: sampleState_def sampleCluster_def)
  have hyp: "\<forall>r\<in>set (cl_resources (wld ?s)). keepsDevice ''n1'' r \<longrightarrow> lastUse (memEnv []) ''co.hdi'' r \<noteq> None"
    unfolding rs by (simp add: sampleResource_def lastUse_def IsZero_def zeroTime_def)
  have cnt: "length (filter (\<lambda>r. keepsDevice ''n1'' r \<and> recentlyUsed (memEnv []) (Nanos 1000) ''co.hdi'' 900 r) ?rs) = 2"
    by (simp add: sampleResource_def keepsDevice_def recentlyUsed_def lastUse_def IsZero_def zeroTime_def Sub_def
        int64_max_def int64_min_def)
  show ?thesis
    using next_size_reference [OF mem.quiet_api_axioms hyp, of 0 900] unfolding rs cnt by simp
qed

text \<open>
  An idle request for \<open>A40\<close> that nobody wants stays at its size when a device of another model on the
  node was used recently; without that device it is cut to zero.
\<close>

lemma idle_request_kept:
  "(let request = \<lparr>req_Name = ''q'', req_Type = ''gpu'', req_Model = ''A40'', req_Size = 1, req_TargetNode = ''n1''\<rparr>;
        idleA40 = sampleResource ''r0'' ''A40'' ''GPU-0'';
        recentT4 = (sampleResource ''r1'' ''T4'' ''GPU-1'')\<lparr>cr_CreationTimestamp := Nanos 990\<rparr>;
        run = (\<lambda>rs. DynamicDetach (memEnv []) request 0 ''n1'' ''co.hdi'' 100 (sampleState [] rs [request]))
    in map fst (calls (snd (run [idleA40]))) = [PatchRequestSize ''q'' 0] \<and>
       calls (snd (run [idleA40, recentT4])) = [] \<and> fst (run [idleA40, recentT4]) = Ok ())"
  by code_simp

text \<open>
  Property C39. The devices that keep a request from shrinking are not those of its model. Against a
  snapshot with readable last-used times, when at least as many devices of other models on the node as
  the request's size were used (or created) within the no-removal time, a detach does nothing, whatever
  count is wanted and however long the request's own devices have been idle.
\<close>

theorem detach_blocked_by_other_model:
  assumes "quiet_api E claimsOf resourcesOf requestsOf"
    and "\<forall>x\<in>set (resourcesOf (wld s)). keepsDevice n x \<longrightarrow> lastUse E labelPrefix x \<noteq> None"
    and "req_Size cr \<le> int (length (filter (\<lambda>x. keepsDevice n x \<and>
        recentlyUsed E (fst (clock E (wld s))) labelPrefix d x \<and> cr_Model x \<noteq> req_Model cr) (resourcesOf (wld s))))"
  shows "DynamicDetach E cr cnt n labelPrefix d s = (Ok (), s)"
proof -
  let ?used = "\<lambda>x. keepsDevice n x \<and> recentlyUsed E (fst (clock E (wld s))) labelPrefix d x"
  have "length (filter (\<lambda>x. keepsDevice n x \<and> recentlyUsed E (fst (clock E (wld s))) labelPrefix d x \<and>
      cr_Model x \<noteq> req_Model cr) rs) \<le> length (filter ?used rs)" for rs
    by (induction rs) auto
  from order_trans [OF assms(3) of_nat_mono [OF this]]
  have enough: "req_Size cr \<le> int (length (filter ?used (resourcesOf (wld s))))" .
  have "getNextSize E cnt n labelPrefix d s = (Ok (max cnt (int (length (filter ?used (resourcesOf (wld s)))))), s)"
    using assms(2) by (intro quiet_api.getNextSize_run [OF assms(1)]) blast
  with enough show ?thesis by (simp add: DynamicDetach_def andThen_def wrapErr_def ret_def)
qed

theorem detach_blocked_by_other_model_witness:
  "calls (snd (DynamicDetach (memEnv [])
     \<lparr>req_Name = ''q'', req_Type = ''gpu'', req_Model = ''A40'', req_Size = 1, req_TargetNode = ''n1''\<rparr> 0 ''n1'' ''co.hdi'' 100
     (sampleState [] [sampleResource ''r0'' ''A40'' ''GPU-0'',
        (sampleResource ''r1'' ''T4'' ''GPU-1'')\<lparr>cr_CreationTimestamp := Nanos 990\<rparr>] []))) = []"
proof -
  let ?rs = "[sampleResource ''r0'' ''A40'' ''GPU-0'', (sampleResource ''r1'' ''T4'' ''GPU-1'')\<lparr>cr_CreationTimestamp := Nanos 990\<rparr>]"
  let ?s = "sampleState [] ?rs []"
  let ?cr = "\<lparr>req_Name = ''q'', req_Type = ''gpu'', req_Model = ''A40'', req_Size = 1, req_TargetNode = ''n1''\<rparr>"
  have rs: "cl_resources (wld ?s) = ?rs" "fst (clock (memEnv []) (wld ?s)) = Nanos 1000" "calls ?s = []"
    by (simp_all add: sampleState_def sampleCluster_def)
  have stamps: "\<forall>x\<in>set (cl_resources (wld ?s)). keepsDevice ''n1'' x \<longrightarrow> lastUse (memEnv []) ''co.hdi'' x \<noteq> None"
    unfolding rs by (simp add: sampleResource_def lastUse_def IsZero_def zeroTime_def)
  have "length (filter (\<lambda>x. keepsDevice ''n1'' x \<and> recentlyUsed (memEnv []) (Nanos 1000) ''co.hdi'' 100 x \<and>
      cr_Model x \<noteq> ''A40'') ?rs) = 1"
    by (simp add: sampleResource_def keepsDevice_def recentlyUsed_def lastUse_def IsZero_def zeroTime_def Sub_def
        int64_max_def int64_min_def)
  then have "req_Size ?cr \<le> int (length (filter (\<lambda>x. keepsDevice ''n1'' x \<and>
      recentlyUsed (memEnv []) (fst (clock (memEnv []) (wld ?s))) ''co.hdi'' 100 x \<and> cr_Model x \<noteq> req_Model ?cr)
      (cl_resources (wld ?s))))" unfolding rs by simp
  from detach_blocked_by_other_model [OF mem.quiet_api_axioms stamps this, of 0] show ?thesis by (simp only: snd_conv rs)
qed

end
