(* ===== verification/RescheduleUtils.thy ===== *)
theory RescheduleUtils
  imports DeviceUtils
begin

text \<open>
  \<open>src/internal/utils/reschedule_utils.go\<close>: the two notification passes over the claims of a
  node. \<open>RescheduleFailedNotification\<close> marks claims that cannot be served as failed;
  \<open>RescheduleNotification\<close> tells the scheduler that the devices of a claim are attached.
\<close>

section \<open>Definitions\<close>

definition claimBefore :: "string \<Rightarrow> ResourceClaimInfo \<Rightarrow> ResourceClaimInfo \<Rightarrow> bool" where
  "claimBefore order x y \<longleftrightarrow>
     (if order = ''Ascending'' then rci_CreationTimestamp x < rci_CreationTimestamp y
      else rci_CreationTimestamp x > rci_CreationTimestamp y)"

definition sortByTime ::
    "'w env \<Rightarrow> ResourceClaimInfo list \<Rightarrow> string \<Rightarrow> ('w, ResourceClaimInfo list) io" where
  "sortByTime E infos order =
     andThen (peekOp (choice E)) (\<lambda>ns. ret (sortSlice (claimBefore order) ns infos))"

definition GetModelLimit :: "NodeInfo \<Rightarrow> string \<Rightarrow> int \<times> int" where
  "GetModelLimit node model =
     (case find (\<lambda>mc. mc_Model mc = model) (ni_Models node) of
        None \<Rightarrow> (50, 0)
      | Some mc \<Rightarrow> (if mc_MaxDeviceSet mc then mc_MaxDevice mc else 50, mc_MinDevice mc))"

text \<open>A Go map from models to counts: the list of its entries, ranged over in any order.\<close>

fun bumpCount :: "string \<Rightarrow> (string \<times> int) list \<Rightarrow> (string \<times> int) list" where
  "bumpCount k [] = [(k, 1)]"
| "bumpCount k ((k', n) # m) = (if k = k' then (k', n + 1) # m else (k', n) # bumpCount k m)"

definition getUniqueModelsWithCounts :: "ResourceClaimInfo \<Rightarrow> (string \<times> int) list" where
  "getUniqueModelsWithCounts rc =
     foldl (\<lambda>m d. if rcd_State d = ''Preparing'' then bumpCount (rcd_Model d) m else m) []
       (rci_Devices rc)"

text \<open>In \<open>indexToModel\<close> the last device with an index wins.\<close>

definition indexToModel :: "ComposableDRASpec \<Rightarrow> int \<rightharpoonup> string" where
  "indexToModel spec =
     foldl (\<lambda>m info. m(di_Index info \<mapsto> di_CDIModelName info)) Map.empty (sp_DeviceInfos spec)"

definition isDeviceCoexistence :: "string \<Rightarrow> string \<Rightarrow> ComposableDRASpec \<Rightarrow> bool" where
  "isDeviceCoexistence model1 model2 spec =
     (if model1 = model2 then True
      else case find (\<lambda>info. di_CDIModelName info = model1) (sp_DeviceInfos spec) of
             None \<Rightarrow> True
           | Some info \<Rightarrow>
               \<not> list_ex (\<lambda>idx. indexToModel spec idx = Some model2) (di_CannotCoexistWith info))"

definition withState :: "string \<Rightarrow> ResourceClaimInfo \<Rightarrow> ResourceClaimInfo" where
  "withState targetState rc =
     rc\<lparr>rci_Devices := map (\<lambda>d. d\<lparr>rcd_State := targetState\<rparr>) (rci_Devices rc)\<rparr>"

definition setDevicesState ::
    "'w env \<Rightarrow> ResourceClaimInfo \<Rightarrow> string \<Rightarrow> string \<Rightarrow> ('w, ResourceClaimInfo) io" where
  "setDevicesState E rc targetState conditionType =
     andThen (PatchResourceClaimDeviceConditions E (rci_Name rc) (rci_Namespace rc) conditionType)
       (\<lambda>_. ret (withState targetState rc))"

subsection \<open>RescheduleFailedNotification\<close>

text \<open>
  \<open>resourceClaimInfos[k], err = setDevicesState(ctx, kubeClient, rc, "Failed", "FabricDeviceFailed")\<close>
\<close>

definition failClaim ::
    "'w env \<Rightarrow> ResourceClaimInfo list \<Rightarrow> nat \<Rightarrow> ResourceClaimInfo \<Rightarrow> ('w, ResourceClaimInfo list) io" where
  "failClaim E infos k rc =
     andThen (wrapErr ''failed to set devices state''
       (setDevicesState E rc ''Failed'' ''FabricDeviceFailed''))
       (\<lambda>rc'. ret (infos[k := rc']))"

text \<open>The checks of one device, in the order of the code.\<close>

definition siblingConflict ::
    "ComposableDRASpec \<Rightarrow> ResourceClaimInfo \<Rightarrow> nat \<Rightarrow> ResourceClaimDevice \<Rightarrow> bool" where
  "siblingConflict spec rc i dev \<longleftrightarrow>
     list_ex (\<lambda>(j, other). i \<noteq> j \<and> rcd_Model dev \<noteq> rcd_Model other \<and>
                           \<not> isDeviceCoexistence (rcd_Model dev) (rcd_Model other) spec)
       (enumerate 0 (rci_Devices rc))"

definition requestConflict ::
    "ComposableDRASpec \<Rightarrow> ComposabilityRequest list \<Rightarrow> ResourceClaimInfo \<Rightarrow> ResourceClaimDevice \<Rightarrow> bool" where
  "requestConflict spec requests rc dev \<longleftrightarrow>
     list_ex (\<lambda>cr. req_Size cr > 0 \<and> req_TargetNode cr = rci_NodeName rc \<and>
                   \<not> isDeviceCoexistence (rcd_Model dev) (req_Model cr) spec) requests"

definition resourceConflict ::
    "ComposableDRASpec \<Rightarrow> ComposableResource list \<Rightarrow> ResourceClaimInfo \<Rightarrow> ResourceClaimDevice \<Rightarrow> bool" where
  "resourceConflict spec resources rc dev \<longleftrightarrow>
     list_ex (\<lambda>r. (cr_State r = ''Online'' \<or> cr_State r = ''Attaching'') \<and>
                  cr_TargetNode r = rci_NodeName rc \<and>
                  \<not> isDeviceCoexistence (rcd_Model dev) (cr_Model r) spec) resources"

definition claimConflict ::
    "ComposableDRASpec \<Rightarrow> ResourceClaimInfo \<Rightarrow> ResourceClaimDevice \<Rightarrow> ResourceClaimInfo \<Rightarrow> bool" where
  "claimConflict spec rc dev rc2 \<longleftrightarrow>
     rci_Name rc \<noteq> rci_Name rc2 \<and>
     list_ex (\<lambda>d2. rcd_State d2 = ''Preparing'' \<and> rcd_Model dev \<noteq> rcd_Model d2 \<and>
                   \<not> isDeviceCoexistence (rcd_Model dev) (rcd_Model d2) spec) (rci_Devices rc2)"

text \<open>
  One round of the loop over \<open>rc.Devices\<close>. The result is the claims and whether the code goes on
  with the next claim (\<open>continue outerLoop\<close>). Lines 94 to 114 compute \<open>exit\<close> and discard it.
\<close>

definition failedDevice ::
    "'w env \<Rightarrow> ComposableDRASpec \<Rightarrow> ComposabilityRequest list \<Rightarrow> ComposableResource list \<Rightarrow>
     nat \<Rightarrow> ResourceClaimInfo \<Rightarrow> ResourceClaimInfo list \<Rightarrow> nat \<Rightarrow> ResourceClaimDevice
       \<Rightarrow> ('w, ResourceClaimInfo list \<times> bool) io" where
  "failedDevice E spec requests resources k rc infos i dev =
     (if rcd_State dev \<noteq> ''Preparing'' then ret (infos, True)
      else if siblingConflict spec rc i dev \<or> requestConflict spec requests rc dev \<or>
              resourceConflict spec resources rc dev
      then andThen (failClaim E infos k rc) (\<lambda>infos'. ret (infos', True))
      else case find (\<lambda>i2. claimConflict spec rc dev (infos ! i2)) [0..<length infos] of
             Some i2 \<Rightarrow>
               andThen (failClaim E infos k rc) (\<lambda>infos'.
               andThen (failClaim E infos' i2 (infos ! i2)) (\<lambda>infos''.
               ret (infos'', True)))
           | None \<Rightarrow> ret (infos, False))"

fun failedDevices ::
    "'w env \<Rightarrow> ComposableDRASpec \<Rightarrow> ComposabilityRequest list \<Rightarrow> ComposableResource list \<Rightarrow>
     nat \<Rightarrow> ResourceClaimInfo \<Rightarrow> ResourceClaimInfo list \<Rightarrow> nat \<Rightarrow> ResourceClaimDevice list
       \<Rightarrow> ('w, ResourceClaimInfo list \<times> bool) io" where
  "failedDevices E spec requests resources k rc infos i [] = ret (infos, False)"
| "failedDevices E spec requests resources k rc infos i (dev # devs) =
     andThen (failedDevice E spec requests resources k rc infos i dev) (\<lambda>(infos', next).
       if next then ret (infos', True)
       else failedDevices E spec requests resources k rc infos' (Suc i) devs)"

text \<open>The loop over \<open>modelMap\<close>: the limit of every model of the claim.\<close>

definition limitStep ::
    "'w env \<Rightarrow> NodeInfo \<Rightarrow> ResourceSliceInfo list \<Rightarrow> nat \<Rightarrow> ResourceClaimInfo \<Rightarrow>
     ResourceClaimInfo list \<Rightarrow> string \<times> int \<Rightarrow> ('w, ResourceClaimInfo list) io" where
  "limitStep E node slices k rc infos entry =
     andThen (wrapErr ''failed to get configured device count''
       (GetConfiguredDeviceCount E (fst entry) (ni_Name node) infos slices)) (\<lambda>configured.
     if configured > fst (GetModelLimit node (fst entry)) then failClaim E infos k rc
     else ret infos)"

definition failedClaim ::
    "'w env \<Rightarrow> NodeInfo \<Rightarrow> ResourceSliceInfo list \<Rightarrow> ComposableDRASpec \<Rightarrow>
     ComposabilityRequest list \<Rightarrow> ComposableResource list \<Rightarrow> ResourceClaimInfo list \<Rightarrow> nat
       \<Rightarrow> ('w, ResourceClaimInfo list) io" where
  "failedClaim E node slices spec requests resources infos k =
     andThen (failedDevices E spec requests resources k (infos ! k) infos 0 (rci_Devices (infos ! k)))
       (\<lambda>(infos', next).
          if next then ret infos'
          else andThen (rangeOrder E (getUniqueModelsWithCounts (infos ! k))) (\<lambda>modelMap.
               foldM (limitStep E node slices k (infos ! k)) infos' modelMap))"

definition RescheduleFailedNotification ::
    "'w env \<Rightarrow> NodeInfo \<Rightarrow> ResourceClaimInfo list \<Rightarrow> ResourceSliceInfo list \<Rightarrow> ComposableDRASpec
       \<Rightarrow> ('w, ResourceClaimInfo list) io" where
  "RescheduleFailedNotification E node infos slices spec =
     andThen (wrapErr ''failed to list composabilityRequestList''
       (readOp (listComposabilityRequests E))) (\<lambda>requests.
     andThen (wrapErr ''failed to list composableResource''
       (readOp (listComposableResources E))) (\<lambda>resources.
     andThen (wrapErr ''failed to list ResourceSlices''
       (readOp (listResourceSlices E))) (\<lambda>_.
     andThen (sortByTime E infos ''Descending'') (\<lambda>sorted.
     foldM (failedClaim E node slices spec requests resources) sorted [0..<length sorted]))))"

subsection \<open>RescheduleNotification\<close>

text \<open>
  The loop over the resources for one model of a claim: a resource is taken when it is online,
  on the node, of the model, not being deleted, listed in a slice, not used by a pod and not
  used recently. A failure to read its annotation is logged and counts as recent use.
\<close>

definition isOvertime :: "'w env \<Rightarrow> ComposableResource \<Rightarrow> string \<Rightarrow> int \<Rightarrow> ('w, bool) io" where
  "isOvertime E resource labelPrefix deviceNoAllocation s =
     (case isLastUsedOverThreshold E resource labelPrefix deviceNoAllocation False s of
        (Ok over, t) \<Rightarrow> (Ok over, t)
      | (Fail _, t) \<Rightarrow> (Ok False, t)
      | (Panic p, t) \<Rightarrow> (Panic p, t))"

definition candidate ::
    "'w env \<Rightarrow> ResourceSliceInfo list \<Rightarrow> string \<Rightarrow> int \<Rightarrow> ResourceClaimInfo \<Rightarrow> string \<Rightarrow>
     string list \<Rightarrow> ComposableResource \<Rightarrow> ('w, bool) io" where
  "candidate E slices labelPrefix deviceNoAllocation rc model matched resource =
     (if cr_Model resource = model \<and> cr_TargetNode resource = rci_NodeName rc \<and>
         cr_Name resource \<notin> set matched \<and> cr_State resource = ''Online'' \<and>
         cr_DeletionTimestamp resource = None
      then (case IsDeviceResourceSliceRed (cr_DeviceID resource) slices of
              None \<Rightarrow> ret False
            | Some (slice, deviceName) \<Rightarrow>
                andThen (wrapErr ''failed to check if device is used by pod''
                  (IsDeviceUsedByPod E deviceName slice)) (\<lambda>isUsed.
                if isUsed then ret False
                else isOvertime E resource labelPrefix deviceNoAllocation))
      else ret False)"

fun matchModel ::
    "'w env \<Rightarrow> ResourceSliceInfo list \<Rightarrow> string \<Rightarrow> int \<Rightarrow> ResourceClaimInfo \<Rightarrow> string \<Rightarrow> int \<Rightarrow>
     string list \<Rightarrow> int \<Rightarrow> ComposableResource list \<Rightarrow> ('w, string list \<times> bool) io" where
  "matchModel E slices labelPrefix dna rc model cnt matched matchedCount [] = ret (matched, False)"
| "matchModel E slices labelPrefix dna rc model cnt matched matchedCount (resource # resources) =
     andThen (candidate E slices labelPrefix dna rc model matched resource) (\<lambda>take.
       if take
       then if matchedCount + 1 \<ge> cnt then ret (matched @ [cr_Name resource], True)
            else matchModel E slices labelPrefix dna rc model cnt
                   (matched @ [cr_Name resource]) (matchedCount + 1) resources
       else matchModel E slices labelPrefix dna rc model cnt matched matchedCount resources)"

fun matchModels ::
    "'w env \<Rightarrow> ResourceSliceInfo list \<Rightarrow> string \<Rightarrow> int \<Rightarrow> ResourceClaimInfo \<Rightarrow>
     ComposableResource list \<Rightarrow> string list \<Rightarrow> (string \<times> int) list \<Rightarrow> ('w, string list option) io" where
  "matchModels E slices labelPrefix dna rc resources matched [] = ret (Some matched)"
| "matchModels E slices labelPrefix dna rc resources matched ((model, cnt) # models) =
     andThen (matchModel E slices labelPrefix dna rc model cnt matched 0 resources) (\<lambda>(matched', found).
       if found then matchModels E slices labelPrefix dna rc resources matched' models
       else ret None)"

definition annotateMatched ::
    "'w env \<Rightarrow> string \<Rightarrow> string list \<Rightarrow> ('w, unit) io" where
  "annotateMatched E labelPrefix matched =
     andThen (now E) (\<lambda>t.
     andThen (rangeOrder E matched) (\<lambda>names.
     foldM (\<lambda>_ name. wrapErr ''failed to patch composable resource annotation''
              (PatchComposableResourceAnnotation E name (labelPrefix @ ''/last-used-time'')
                 (formatRFC3339 E t))) () names))"

definition notifyClaim ::
    "'w env \<Rightarrow> ResourceSliceInfo list \<Rightarrow> string \<Rightarrow> int \<Rightarrow> ComposableResource list \<Rightarrow>
     ResourceClaimInfo list \<Rightarrow> nat \<Rightarrow> ('w, ResourceClaimInfo list) io" where
  "notifyClaim E slices labelPrefix dna resources infos k =
     (let rc = infos ! k
      in if list_ex (\<lambda>d. rcd_State d \<noteq> ''Preparing'') (rci_Devices rc) then ret infos
         else
           andThen (rangeOrder E (getUniqueModelsWithCounts rc)) (\<lambda>modelMap.
           andThen (matchModels E slices labelPrefix dna rc resources [] modelMap) (\<lambda>m.
             case m of
               None \<Rightarrow> ret infos
             | Some matched \<Rightarrow>
                 andThen (wrapErr ''failed to set devices state''
                   (setDevicesState E rc ''Reschedule'' ''FabricDeviceReschedule'')) (\<lambda>rc'.
                 andThen (annotateMatched E labelPrefix matched) (\<lambda>_.
                 ret (infos[k := rc']))))))"

definition RescheduleNotification ::
    "'w env \<Rightarrow> ResourceClaimInfo list \<Rightarrow> ResourceSliceInfo list \<Rightarrow> string \<Rightarrow> int
       \<Rightarrow> ('w, ResourceClaimInfo list) io" where
  "RescheduleNotification E infos slices labelPrefix deviceNoAllocation =
     andThen (wrapErr ''failed to list composableResource''
       (readOp (listComposableResources E))) (\<lambda>resources.
     if resources = [] then ret infos
     else
       andThen (sortByTime E infos ''Ascending'') (\<lambda>sorted.
       foldM (notifyClaim E slices labelPrefix deviceNoAllocation resources) sorted
         [0..<length sorted]))"

section \<open>Sorting, limits, coexistence\<close>

interpretation ascending: slice_order "claimBefore ''Ascending''"
  by unfold_locales (auto simp: claimBefore_def)

interpretation descending: slice_order "claimBefore ''Descending''"
  by unfold_locales (auto simp: claimBefore_def)

definition sortedBy :: "string \<Rightarrow> ResourceClaimInfo list \<Rightarrow> bool" where
  "sortedBy order infos \<longleftrightarrow>
     (if order = ''Ascending'' then sorted (map rci_CreationTimestamp infos)
      else sorted (rev (map rci_CreationTimestamp infos)))"

lemma sorted_claims:
  "sorted_wrt (\<lambda>x y. \<not> claimBefore ''Ascending'' y x) xs \<Longrightarrow> sortedBy ''Ascending'' xs"
  "sorted_wrt (\<lambda>x y. \<not> claimBefore ''Descending'' y x) xs \<Longrightarrow> sortedBy ''Descending'' xs"
  by (simp_all add: sortedBy_def claimBefore_def sorted_wrt_map sorted_wrt_rev not_less)

lemma does_sortByTime:
  assumes "order = ''Ascending'' \<or> order = ''Descending''"
  shows "does P (\<lambda>ys. mset ys = mset infos \<and> sortedBy order ys) (sortByTime E infos order)"
  unfolding sortByTime_def using assms
  by (auto intro!: does_rules sorted_claims ascending.sortSlice_sorted descending.sortSlice_sorted)

lemma emits_sortByTime [does_rules]: "emits P (sortByTime E infos order)"
  unfolding sortByTime_def by (intro does_rules) simp

lemma map_of_bumpCount:
  "map_of (bumpCount k m) x = (if x = k then Some (orElse (map_of m k) 0 + 1) else map_of m x)"
  by (induction k m rule: bumpCount.induct) (auto simp: orElse_def)

lemma keys_bumpCount: "fst ` set (bumpCount k m) = insert k (fst ` set m)"
  by (induction k m rule: bumpCount.induct) auto

lemma distinct_bumpCount: "distinct (map fst m) \<Longrightarrow> distinct (map fst (bumpCount k m))"
  by (induction k m rule: bumpCount.induct) (use keys_bumpCount in auto)

lemma foldl_bumpCount:
  "distinct (map fst m) \<Longrightarrow>
   distinct (map fst (foldl (\<lambda>m d. if p d then bumpCount (f d) m else m) m ds)) \<and>
   map_of (foldl (\<lambda>m d. if p d then bumpCount (f d) m else m) m ds) x =
     (let n = int (length (filter (\<lambda>d. p d \<and> f d = x) ds))
      in if n = 0 then map_of m x else Some (orElse (map_of m x) 0 + n))"
proof (induction ds arbitrary: m)
  case (Cons d ds)
  show ?case
  proof (cases "p d")
    case True
    have *: "distinct (map fst (bumpCount (f d) m))" using Cons.prems by (rule distinct_bumpCount)
    from Cons.IH [OF *] True show ?thesis
      by (auto simp: map_of_bumpCount Let_def orElse_def)
  qed (use Cons in simp)
qed simp

lemma getUniqueModelsWithCounts_spec:
  "distinct (map fst (getUniqueModelsWithCounts rc))"
  "map_of (getUniqueModelsWithCounts rc) m =
     (let n = length (filter (\<lambda>d. rcd_State d = ''Preparing'' \<and> rcd_Model d = m) (rci_Devices rc))
      in if n = 0 then None else Some (int n))"
  unfolding getUniqueModelsWithCounts_def
  using foldl_bumpCount [where m = "[]" and p = "\<lambda>d. rcd_State d = ''Preparing''" and f = rcd_Model
      and ds = "rci_Devices rc" and x = m]
  by (auto simp: Let_def orElse_def)

lemma models_of_claim:
  "d \<in> set (rci_Devices rc) \<Longrightarrow> rcd_State d = ''Preparing'' \<Longrightarrow>
   rcd_Model d \<in> fst ` set (getUniqueModelsWithCounts rc)"
proof -
  assume "d \<in> set (rci_Devices rc)" "rcd_State d = ''Preparing''"
  then have "filter (\<lambda>d'. rcd_State d' = ''Preparing'' \<and> rcd_Model d' = rcd_Model d) (rci_Devices rc) \<noteq> []"
    by (auto simp: filter_empty_conv)
  then have "map_of (getUniqueModelsWithCounts rc) (rcd_Model d) \<noteq> None"
    by (simp add: getUniqueModelsWithCounts_spec(2) Let_def)
  then show ?thesis by (auto simp: map_of_eq_None_iff)
qed

lemma isDeviceCoexistence_refl [simp]: "isDeviceCoexistence m m spec"
  by (simp add: isDeviceCoexistence_def)

lemma indexToModel_spec:
  "distinct (map di_Index (sp_DeviceInfos spec)) \<Longrightarrow>
   indexToModel spec idx = Some m \<longleftrightarrow>
     (\<exists>info\<in>set (sp_DeviceInfos spec). di_Index info = idx \<and> di_CDIModelName info = m)"
proof -
  have "foldl (\<lambda>m info. m(di_Index info \<mapsto> di_CDIModelName info)) g infos idx = Some m \<longleftrightarrow>
     (\<exists>info\<in>set infos. di_Index info = idx \<and> di_CDIModelName info = m) \<or>
     (idx \<notin> di_Index ` set infos \<and> g idx = Some m)"
    if "distinct (map di_Index infos)" for infos :: "DeviceInfo list" and g :: "int \<rightharpoonup> string"
    using that by (induction infos arbitrary: g) auto
  then show "distinct (map di_Index (sp_DeviceInfos spec)) \<Longrightarrow> ?thesis"
    by (simp add: indexToModel_def)
qed

text \<open>The meaning of \<open>cannot-coexist-with\<close> in a configuration without duplicates.\<close>

lemma isDeviceCoexistence_spec:
  assumes "distinct (map di_Index (sp_DeviceInfos spec))"
    and "distinct (map di_CDIModelName (sp_DeviceInfos spec))"
  shows "isDeviceCoexistence m1 m2 spec \<longleftrightarrow>
     m1 = m2 \<or> \<not> (\<exists>i\<in>set (sp_DeviceInfos spec). \<exists>j\<in>set (sp_DeviceInfos spec).
        di_CDIModelName i = m1 \<and> di_CDIModelName j = m2 \<and> di_Index j \<in> set (di_CannotCoexistWith i))"
proof (cases "find (\<lambda>info. di_CDIModelName info = m1) (sp_DeviceInfos spec)")
  case None
  then have "isDeviceCoexistence m1 m2 spec" by (simp add: isDeviceCoexistence_def)
  with None show ?thesis by (auto simp: find_None_iff)
next
  case (Some info)
  then have info: "info \<in> set (sp_DeviceInfos spec)" "di_CDIModelName info = m1"
    by (auto simp: find_Some_iff)
  have uniq: "i = info" if "i \<in> set (sp_DeviceInfos spec)" "di_CDIModelName i = m1" for i
    using assms(2) info that by (metis distinct_map inj_onD)
  have "isDeviceCoexistence m1 m2 spec \<longleftrightarrow> m1 = m2 \<or> \<not> (\<exists>j\<in>set (sp_DeviceInfos spec).
      di_CDIModelName j = m2 \<and> di_Index j \<in> set (di_CannotCoexistWith info))"
    using Some by (auto simp: isDeviceCoexistence_def list_ex_iff indexToModel_spec [OF assms(1)])
  with info uniq show ?thesis by metis
qed

section \<open>Marking claims\<close>

text \<open>
  What a pass may do to the claims: keep a claim, or set all its devices to the state \<open>st\<close>, the
  latter only for claims that satisfy \<open>p\<close>.
\<close>

definition marks ::
    "string \<Rightarrow> (ResourceClaimInfo \<Rightarrow> bool) \<Rightarrow> ResourceClaimInfo list \<Rightarrow> ResourceClaimInfo list \<Rightarrow> bool" where
  "marks st p infos infos' \<longleftrightarrow> list_all2 (\<lambda>c c'. c' = c \<or> (p c \<and> c' = withState st c)) infos infos'"

definition allPreparing :: "ResourceClaimInfo \<Rightarrow> bool" where
  "allPreparing c \<longleftrightarrow> list_all (\<lambda>d. rcd_State d = ''Preparing'') (rci_Devices c)"

definition somePreparing :: "ResourceClaimInfo \<Rightarrow> bool" where
  "somePreparing c \<longleftrightarrow> list_ex (\<lambda>d. rcd_State d = ''Preparing'') (rci_Devices c)"

definition claimIds :: "ResourceClaimInfo list \<Rightarrow> (string \<times> string) set" where
  "claimIds infos = (\<lambda>c. (rci_Namespace c, rci_Name c)) ` set infos"

lemma withState_simps [simp]:
  "rci_Name (withState st c) = rci_Name c"
  "rci_Namespace (withState st c) = rci_Namespace c"
  "rci_NodeName (withState st c) = rci_NodeName c"
  "rci_CreationTimestamp (withState st c) = rci_CreationTimestamp c"
  "rci_arr (withState st c) = rci_arr c"
  "map rcd_Model (rci_Devices (withState st c)) = map rcd_Model (rci_Devices c)"
  "length (rci_Devices (withState st c)) = length (rci_Devices c)"
  "withState st (withState st' c) = withState st c"
  by (simp_all add: withState_def comp_def)

lemma withState_states: "d \<in> set (rci_Devices (withState st c)) \<Longrightarrow> rcd_State d = st"
  by (auto simp: withState_def)

lemma marks_refl [simp]: "marks st p infos infos"
  by (simp add: marks_def list_all2_refl)

lemma marks_length: "marks st p xs ys \<Longrightarrow> length ys = length xs"
  by (simp add: marks_def list_all2_lengthD)

lemma marks_nth:
  "marks st p xs ys \<Longrightarrow> i < length xs \<Longrightarrow> ys ! i = xs ! i \<or> (p (xs ! i) \<and> ys ! i = withState st (xs ! i))"
  by (auto simp: marks_def list_all2_conv_all_nth)

lemma marks_trans: "marks st p xs ys \<Longrightarrow> marks st p ys zs \<Longrightarrow> marks st p xs zs"
  unfolding marks_def by (erule (1) list_all2_trans [rotated]) auto

lemma marks_update:
  "p (xs ! k) \<Longrightarrow> marks st p xs (xs[k := withState st (xs ! k)])"
  unfolding marks_def
  by (cases "k < length xs") (auto simp: list_all2_conv_all_nth nth_list_update list_update_beyond)

lemma marks_claimIds: "marks st p xs ys \<Longrightarrow> claimIds ys = claimIds xs"
proof -
  assume "marks st p xs ys"
  then have "map (\<lambda>c. (rci_Namespace c, rci_Name c)) ys = map (\<lambda>c. (rci_Namespace c, rci_Name c)) xs"
    unfolding marks_def by (induction rule: list_all2_induct) auto
  then show ?thesis unfolding claimIds_def by (metis list.set_map)
qed

lemma claimIds_mset: "mset ys = mset xs \<Longrightarrow> claimIds ys = claimIds xs"
  unfolding claimIds_def by (metis set_mset_mset)

lemma nth_claimIds: "k < length infos \<Longrightarrow> (rci_Namespace (infos ! k), rci_Name (infos ! k)) \<in> claimIds infos"
  by (auto simp: claimIds_def)

text \<open>
  The interface of a pass: its step treats one claim, sends only what \<open>ev\<close> allows for the claims
  at hand, and marks claims. Then the whole loop does.
\<close>

locale claim_pass =
  fixes step :: "ResourceClaimInfo list \<Rightarrow> nat \<Rightarrow> ('w, ResourceClaimInfo list) io"
    and st :: string
    and p :: "ResourceClaimInfo \<Rightarrow> bool"
    and ev :: "(string \<times> string) set \<Rightarrow> event \<Rightarrow> bool"
  assumes step_marks: "k < length infos \<Longrightarrow> does (ev (claimIds infos)) (marks st p infos) (step infos k)"
begin

lemma pass_marks: "does (ev (claimIds infos)) (marks st p infos) (foldM step infos [0..<length infos])"
proof (rule does_foldM_upt [where I = "\<lambda>_. marks st p infos"])
  fix i b
  assume i: "i < length infos" and b: "marks st p infos b"
  then have "does (ev (claimIds b)) (marks st p b) (step b i)"
    by (intro step_marks) (simp add: marks_length)
  with b show "does (ev (claimIds infos)) (marks st p infos) (step b i)"
    by (auto simp: marks_claimIds intro: marks_trans elim: does_weaken)
qed simp

lemma sorted_pass:
  assumes "order = ''Ascending'' \<or> order = ''Descending''"
  shows "does (ev (claimIds infos))
    (\<lambda>infos'. \<exists>sorted. mset sorted = mset infos \<and> sortedBy order sorted \<and> marks st p sorted infos')
    (andThen (sortByTime E infos order) (\<lambda>sorted. foldM step sorted [0..<length sorted]))"
proof (rule does_andThen [OF does_sortByTime [OF assms]])
  fix sorted
  assume "mset sorted = mset infos \<and> sortedBy order sorted"
  with pass_marks [of sorted] show "does (ev (claimIds infos))
      (\<lambda>infos'. \<exists>sorted. mset sorted = mset infos \<and> sortedBy order sorted \<and> marks st p sorted infos')
      (foldM step sorted [0..<length sorted])"
    by (auto simp: claimIds_mset [of sorted infos] elim!: does_weaken)
qed

end

section \<open>RescheduleFailedNotification\<close>

definition failEvent :: "(string \<times> string) set \<Rightarrow> event \<Rightarrow> bool" where
  "failEvent ids e \<longleftrightarrow>
     (\<exists>ns n ds. fst e = PatchClaimStatus ns n ds \<and> (ns, n) \<in> ids \<and> marked ''FabricDeviceFailed'' ds)"

lemma does_failClaim:
  assumes "(rci_Namespace rc, rci_Name rc) \<in> ids"
  shows "does (failEvent ids) (\<lambda>infos'. infos' = infos[k := withState ''Failed'' rc]) (failClaim E infos k rc)"
  unfolding failClaim_def setDevicesState_def
  by (rule does_andThen [where R = "\<lambda>rc'. rc' = withState ''Failed'' rc"])
    (auto intro!: does_rules simp: failEvent_def assms)

text \<open>What the checks of a device establish when they let it pass.\<close>

definition devicePassed ::
    "ComposableDRASpec \<Rightarrow> ComposabilityRequest list \<Rightarrow> ComposableResource list \<Rightarrow>
     ResourceClaimInfo list \<Rightarrow> ResourceClaimInfo \<Rightarrow> nat \<Rightarrow> bool" where
  "devicePassed spec requests resources infos rc i \<longleftrightarrow>
     (let dev = rci_Devices rc ! i
      in rcd_State dev = ''Preparing'' \<and> \<not> siblingConflict spec rc i dev \<and>
         \<not> requestConflict spec requests rc dev \<and> \<not> resourceConflict spec resources rc dev \<and>
         (\<forall>c\<in>set infos. \<not> claimConflict spec rc dev c))"

text \<open>A claim is settled when it is not waiting any more or all its devices passed.\<close>

definition settled ::
    "ComposableDRASpec \<Rightarrow> ComposabilityRequest list \<Rightarrow> ComposableResource list \<Rightarrow>
     ResourceClaimInfo list \<Rightarrow> nat \<Rightarrow> bool" where
  "settled spec requests resources infos k \<longleftrightarrow>
     (allPreparing (infos ! k) \<longrightarrow>
        (\<forall>i<length (rci_Devices (infos ! k)). devicePassed spec requests resources infos (infos ! k) i))"

lemma Failed_not_allPreparing: "rci_Devices c \<noteq> [] \<Longrightarrow> \<not> allPreparing (withState ''Failed'' c)"
  by (cases "rci_Devices c") (auto simp: allPreparing_def withState_def)

lemma somePreparing_nonempty: "somePreparing c \<Longrightarrow> rci_Devices c \<noteq> []"
  by (auto simp: somePreparing_def)

lemma claimConflict_Failed: "\<not> claimConflict spec rc dev (withState ''Failed'' c)"
  by (auto simp: claimConflict_def list_ex_iff dest: withState_states)

lemma settled_marks:
  assumes "marks ''Failed'' somePreparing infos infos'" and "k < length infos"
    and "settled spec requests resources infos k"
  shows "settled spec requests resources infos' k"
  unfolding settled_def
proof (intro impI allI)
  fix i
  assume prep: "allPreparing (infos' ! k)" and i: "i < length (rci_Devices (infos' ! k))"
  have same: "infos' ! k = infos ! k"
    using marks_nth [OF assms(1,2)] prep Failed_not_allPreparing somePreparing_nonempty by metis
  with assms(3) prep i have "devicePassed spec requests resources infos (infos ! k) i"
    by (simp add: settled_def)
  moreover have "\<not> claimConflict spec rc dev c'"
    if "\<forall>c\<in>set infos. \<not> claimConflict spec rc dev c" and "c' \<in> set infos'" for rc dev c'
  proof -
    from that(2) obtain j where "j < length infos'" "c' = infos' ! j" by (metis in_set_conv_nth)
    with marks_nth [OF assms(1), of j] marks_length [OF assms(1)] that(1) claimConflict_Failed
    show ?thesis by (metis nth_mem)
  qed
  ultimately show "devicePassed spec requests resources infos' (infos' ! k) i"
    unfolding same devicePassed_def Let_def by blast
qed

text \<open>One device: either the claim is given up and no longer waiting, or the device passed.\<close>

abbreviation deviceResult ::
    "ComposableDRASpec \<Rightarrow> ComposabilityRequest list \<Rightarrow> ComposableResource list \<Rightarrow>
     ResourceClaimInfo list \<Rightarrow> nat \<Rightarrow> nat set \<Rightarrow> ResourceClaimInfo list \<times> bool \<Rightarrow> bool" where
  "deviceResult spec requests resources infos k js r \<equiv>
     marks ''Failed'' somePreparing infos (fst r) \<and>
     (if snd r then \<not> allPreparing (fst r ! k)
      else fst r = infos \<and> (\<forall>j\<in>js. devicePassed spec requests resources infos (infos ! k) j))"

lemma does_failedDevice:
  assumes k: "k < length infos" and i: "i < length (rci_Devices (infos ! k))"
  shows "does (failEvent (claimIds infos)) (deviceResult spec requests resources infos k {i})
    (failedDevice E spec requests resources k (infos ! k) infos i (rci_Devices (infos ! k) ! i))"
proof -
  let ?rc = "infos ! k" and ?dev = "rci_Devices (infos ! k) ! i"
  have dev: "?dev \<in> set (rci_Devices ?rc)" using i by simp
  then have ne: "rci_Devices ?rc \<noteq> []" by auto
  note fail = does_failClaim [OF nth_claimIds]
  show ?thesis
  proof (cases "rcd_State ?dev = ''Preparing''")
    case False
    with dev have "\<not> allPreparing ?rc" by (auto simp: allPreparing_def list_all_iff)
    with False show ?thesis by (auto simp: failedDevice_def intro: does_ret)
  next
    case True
    then have some: "somePreparing ?rc" using dev by (auto simp: somePreparing_def list_ex_iff)
    have one: "marks ''Failed'' somePreparing infos (infos[k := withState ''Failed'' ?rc])"
      using some by (rule marks_update)
    show ?thesis
    proof (cases "find (\<lambda>i2. claimConflict spec ?rc ?dev (infos ! i2)) [0..<length infos]")
      case None
      then have "\<forall>c\<in>set infos. \<not> claimConflict spec ?rc ?dev c"
        by (auto simp: find_None_iff in_set_conv_nth)
      with None True one ne k show ?thesis
        by (auto simp: failedDevice_def devicePassed_def Failed_not_allPreparing
            intro!: does_if does_ret does_andThen [OF fail])
    next
      case (Some i2)
      then have i2: "i2 < length infos" "claimConflict spec ?rc ?dev (infos ! i2)"
        by (auto simp: find_Some_iff)
      then have neq: "i2 \<noteq> k" and some2: "somePreparing (infos ! i2)"
        by (auto simp: claimConflict_def somePreparing_def list_ex_iff)
      have two: "marks ''Failed'' somePreparing infos
          (infos[k := withState ''Failed'' ?rc, i2 := withState ''Failed'' (infos ! i2)])"
        using marks_update [of somePreparing "infos[k := withState ''Failed'' ?rc]" i2 "''Failed''"]
          some2 neq one by (auto intro: marks_trans)
      from Some True one two ne k neq i2 show ?thesis
        by (auto simp: failedDevice_def Failed_not_allPreparing
            intro!: does_if does_ret does_andThen [OF fail])
    qed
  qed
qed

lemma does_failedDevices:
  assumes k: "k < length infos"
  shows "drop i (rci_Devices (infos ! k)) = devs \<Longrightarrow>
    does (failEvent (claimIds infos))
      (deviceResult spec requests resources infos k {i..<length (rci_Devices (infos ! k))})
      (failedDevices E spec requests resources k (infos ! k) infos i devs)"
proof (induction devs arbitrary: i)
  case Nil
  then show ?case by (auto intro: does_ret)
next
  case (Cons dev devs)
  let ?n = "length (rci_Devices (infos ! k))"
  have i: "i < ?n" using Cons.prems by (metis drop_all list.distinct(1) not_le)
  have dev: "dev = rci_Devices (infos ! k) ! i" and rest: "drop (Suc i) (rci_Devices (infos ! k)) = devs"
    using Cons.prems i by (metis Cons_nth_drop_Suc list.inject)+
  have split: "{i..<?n} = insert i {Suc i..<?n}" using i by auto
  show ?case
    unfolding dev failedDevices.simps
  proof (rule does_andThen [OF does_failedDevice [OF k i]])
    fix r
    assume r: "deviceResult spec requests resources infos k {i} r"
    obtain infos' nxt where [simp]: "r = (infos', nxt)" by (cases r)
    show "does (failEvent (claimIds infos)) (deviceResult spec requests resources infos k {i..<?n})
      (case r of (infos', nxt) \<Rightarrow> if nxt then ret (infos', True)
         else failedDevices E spec requests resources k (infos ! k) infos' (Suc i) devs)"
    proof (cases nxt)
      case True
      with r show ?thesis by (auto intro: does_ret)
    next
      case False
      with r have "infos' = infos" and "devicePassed spec requests resources infos (infos ! k) i" by auto
      with False Cons.IH [OF rest] show ?thesis
        unfolding split by (auto elim!: does_weaken split: if_splits)
    qed
  qed
qed

lemma no_models: "\<not> somePreparing rc \<Longrightarrow> getUniqueModelsWithCounts rc = []"
proof -
  have "\<not> list_ex (\<lambda>d. rcd_State d = ''Preparing'') ds \<Longrightarrow>
    foldl (\<lambda>m d. if rcd_State d = ''Preparing'' then bumpCount (rcd_Model d) m else m) m ds = m" for m ds
    by (induction ds) auto
  then show "\<not> somePreparing rc \<Longrightarrow> getUniqueModelsWithCounts rc = []"
    by (simp add: getUniqueModelsWithCounts_def somePreparing_def)
qed

text \<open>The limit loop marks the claim at most.\<close>

lemma does_limitStep:
  assumes k: "k < length infos" and b: "marks ''Failed'' somePreparing infos b"
    and some: "somePreparing (infos ! k)"
  shows "does (failEvent (claimIds infos)) (marks ''Failed'' somePreparing infos)
    (limitStep E node slices k (infos ! k) b entry)"
proof -
  have "marks ''Failed'' somePreparing infos (b[k := withState ''Failed'' (infos ! k)])"
    using b k some marks_nth [OF b k]
    by (auto simp: marks_def list_all2_conv_all_nth nth_list_update)
  with b show ?thesis
    unfolding limitStep_def
    by (intro does_seq does_wrapErr emits_GetConfiguredDeviceCount does_if does_ret)
      (auto intro: does_weaken [OF does_failClaim [OF nth_claimIds [OF k]]])
qed

lemma does_failedClaim:
  assumes k: "k < length infos"
  shows "does (failEvent (claimIds infos))
    (\<lambda>infos'. marks ''Failed'' somePreparing infos infos' \<and> settled spec requests resources infos' k)
    (failedClaim E node slices spec requests resources infos k)"
  unfolding failedClaim_def
proof (rule does_andThen [OF does_failedDevices [OF k]])
  show "drop 0 (rci_Devices (infos ! k)) = rci_Devices (infos ! k)" by simp
  fix r
  assume r: "deviceResult spec requests resources infos k {0..<length (rci_Devices (infos ! k))} r"
  obtain infos' nxt where [simp]: "r = (infos', nxt)" by (cases r)
  show "does (failEvent (claimIds infos))
    (\<lambda>infos'. marks ''Failed'' somePreparing infos infos' \<and> settled spec requests resources infos' k)
    (case r of (infos', nxt) \<Rightarrow> if nxt then ret infos'
       else andThen (rangeOrder E (getUniqueModelsWithCounts (infos ! k))) (\<lambda>modelMap.
            foldM (limitStep E node slices k (infos ! k)) infos' modelMap))"
  proof (cases nxt)
    case True
    with r show ?thesis by (auto simp: settled_def intro: does_ret)
  next
    case False
    with r have same: "infos' = infos" and set: "settled spec requests resources infos k"
      by (auto simp: settled_def)
    have loop: "does (failEvent (claimIds infos)) (marks ''Failed'' somePreparing infos)
        (foldM (limitStep E node slices k (infos ! k)) infos modelMap)"
      if "mset modelMap = mset (getUniqueModelsWithCounts (infos ! k))" for modelMap
    proof (cases "somePreparing (infos ! k)")
      case True
      then show ?thesis by (intro does_foldM does_limitStep [OF k]) auto
    next
      case False
      then have "getUniqueModelsWithCounts (infos ! k) = []" by (rule no_models)
      with that show ?thesis by (auto intro: does_ret)
    qed
    have "does (failEvent (claimIds infos))
        (\<lambda>infos'. marks ''Failed'' somePreparing infos infos' \<and> settled spec requests resources infos' k)
        (foldM (limitStep E node slices k (infos ! k)) infos modelMap)"
      if "mset modelMap = mset (getUniqueModelsWithCounts (infos ! k))" for modelMap
      using loop [OF that] by (rule does_weaken) (auto intro: settled_marks [OF _ k set])
    then show ?thesis using False same by (auto intro: does_andThen [OF does_rangeOrder])
  qed
qed

interpretation failed_pass: claim_pass
    "failedClaim E node slices spec requests resources" "''Failed''" somePreparing failEvent
    for E node slices spec requests resources
  by unfold_locales (auto intro: does_weaken [OF does_failedClaim])

text \<open>The whole loop settles every claim.\<close>

lemma does_failedPass:
  "does (failEvent (claimIds infos))
     (\<lambda>infos'. marks ''Failed'' somePreparing infos infos' \<and>
               (\<forall>k<length infos. settled spec requests resources infos' k))
     (foldM (failedClaim E node slices spec requests resources) infos [0..<length infos])"
proof (rule does_foldM_upt [where I = "\<lambda>n infos'. marks ''Failed'' somePreparing infos infos' \<and>
               (\<forall>k<n. settled spec requests resources infos' k)"])
  fix i b
  assume i: "i < length infos"
    and b: "marks ''Failed'' somePreparing infos b \<and> (\<forall>k<i. settled spec requests resources b k)"
  have len: "length b = length infos" and ids: "claimIds b = claimIds infos"
    using b by (blast dest: marks_length marks_claimIds)+
  have "does (failEvent (claimIds b))
    (\<lambda>infos'. marks ''Failed'' somePreparing b infos' \<and> settled spec requests resources infos' i)
    (failedClaim E node slices spec requests resources b i)"
    using i len by (intro does_failedClaim) simp
  then show "does (failEvent (claimIds infos))
    (\<lambda>infos'. marks ''Failed'' somePreparing infos infos' \<and>
              (\<forall>k<Suc i. settled spec requests resources infos' k))
    (failedClaim E node slices spec requests resources b i)"
  proof (rule does_weaken)
    fix infos'
    assume "marks ''Failed'' somePreparing b infos' \<and> settled spec requests resources infos' i"
    then show "marks ''Failed'' somePreparing infos infos' \<and>
        (\<forall>k<Suc i. settled spec requests resources infos' k)"
      using b i len by (auto simp: less_Suc_eq intro: marks_trans settled_marks)
  qed (simp add: ids)
qed simp

section \<open>RescheduleNotification\<close>

definition notifyEvent :: "string \<Rightarrow> (string \<times> string) set \<Rightarrow> event \<Rightarrow> bool" where
  "notifyEvent labelPrefix ids e \<longleftrightarrow>
     (\<exists>ns n ds. fst e = PatchClaimStatus ns n ds \<and> (ns, n) \<in> ids \<and> marked ''FabricDeviceReschedule'' ds) \<or>
     (\<exists>n v. fst e = PatchAnnotation n (labelPrefix @ ''/last-used-time'') v)"

lemma silent_isOvertime [does_rules]: "emits P (isOvertime E resource labelPrefix d)"
proof (rule doesI)
  fix s
  show "\<exists>new. calls (snd (isOvertime E resource labelPrefix d s)) = calls s @ new \<and> list_all P new"
    using doesD_calls [OF silent_isLastUsedOverThreshold [of P E resource labelPrefix d False]]
    by (cases "isLastUsedOverThreshold E resource labelPrefix d False s")
      (fastforce simp: isOvertime_def split: outcome.splits)
qed simp

definition eligible ::
    "ResourceSliceInfo list \<Rightarrow> ResourceClaimInfo \<Rightarrow> string \<Rightarrow> ComposableResource \<Rightarrow> bool" where
  "eligible slices rc model resource \<longleftrightarrow>
     cr_Model resource = model \<and> cr_TargetNode resource = rci_NodeName rc \<and>
     cr_State resource = ''Online'' \<and> cr_DeletionTimestamp resource = None \<and>
     IsDeviceResourceSliceRed (cr_DeviceID resource) slices \<noteq> None"

lemma does_candidate:
  "does P (\<lambda>b. b \<longrightarrow> eligible slices rc model resource \<and> cr_Name resource \<notin> set matched)
     (candidate E slices labelPrefix d rc model matched resource)"
proof (cases "eligible slices rc model resource \<and> cr_Name resource \<notin> set matched")
  case True
  have "emits P (candidate E slices labelPrefix d rc model matched resource)"
    unfolding candidate_def by (auto intro!: does_rules split: option.split)
  with True show ?thesis by (simp add: does_def)
next
  case False
  then show ?thesis
    unfolding candidate_def
    by (auto simp: eligible_def intro!: does_if does_ret split: option.split)
qed

subsection \<open>Matching, in any environment\<close>

text \<open>The matched names that belong to eligible resources of a model.\<close>

definition serving ::
    "ResourceSliceInfo list \<Rightarrow> ResourceClaimInfo \<Rightarrow> ComposableResource list \<Rightarrow> string \<Rightarrow> string set" where
  "serving slices rc resources model = {cr_Name r | r. r \<in> set resources \<and> eligible slices rc model r}"

text \<open>What \<open>matchModel\<close> returns: the names it had, new ones, and whether they are enough.\<close>

definition matchResult ::
    "ResourceSliceInfo list \<Rightarrow> ResourceClaimInfo \<Rightarrow> ComposableResource list \<Rightarrow> string \<Rightarrow> int \<Rightarrow>
     string list \<Rightarrow> int \<Rightarrow> string list \<times> bool \<Rightarrow> bool" where
  "matchResult slices rc all model cnt matched k r \<longleftrightarrow>
     (\<exists>new. fst r = matched @ new \<and> distinct new \<and> set new \<inter> set matched = {} \<and>
           set new \<subseteq> serving slices rc all model \<and> (snd r \<longrightarrow> cnt \<le> k + int (length new)))"

lemma does_matchModel:
  assumes "set resources \<subseteq> set all"
  shows "does P (matchResult slices rc all model cnt matched k)
    (matchModel E slices labelPrefix d rc model cnt matched k resources)"
  using assms
proof (induction resources arbitrary: matched k)
  case Nil
  show ?case by (auto simp: matchResult_def intro: does_ret)
next
  case (Cons r rs)
  have sub: "set rs \<subseteq> set all" and r: "r \<in> set all" using Cons.prems by auto
  have one: "matchResult slices rc all model cnt matched k (matched @ cr_Name r # new, found)"
    if "eligible slices rc model r" "cr_Name r \<notin> set matched" "distinct new"
      "set new \<inter> set (matched @ [cr_Name r]) = {}" "set new \<subseteq> serving slices rc all model"
      "found \<longrightarrow> cnt \<le> k + 1 + int (length new)" for new found
    unfolding matchResult_def using that r
    by (intro exI [of _ "cr_Name r # new"]) (auto simp: serving_def)
  have more: "does P (matchResult slices rc all model cnt matched k)
      (matchModel E slices labelPrefix d rc model cnt (matched @ [cr_Name r]) (k + 1) rs)"
    if "eligible slices rc model r" "cr_Name r \<notin> set matched"
    by (rule does_weaken [OF Cons.IH [OF sub]]) (use one [OF that] in \<open>auto simp: matchResult_def [of _ _ _ _ _ "matched @ [cr_Name r]"]\<close>)
  from Cons.IH [OF sub] more one [of "[]" True] show ?case
    unfolding matchModel.simps by (auto intro!: does_andThen [OF does_candidate] does_if does_ret)
qed

lemma serving_models:
  "n \<in> serving slices rc resources m \<Longrightarrow> \<exists>r\<in>set resources. cr_Name r = n \<and> cr_Model r = m"
  by (auto simp: serving_def eligible_def)

text \<open>
  The names are distinct and, for every model of the list, as many of them as it asks for belong
  to eligible resources of that model.
\<close>

definition matchedAll ::
    "ResourceSliceInfo list \<Rightarrow> ResourceClaimInfo \<Rightarrow> ComposableResource list \<Rightarrow> (string \<times> int) list \<Rightarrow>
     string list \<Rightarrow> string list \<Rightarrow> bool" where
  "matchedAll slices rc resources models old names \<longleftrightarrow>
     distinct names \<and> set old \<subseteq> set names \<and>
     (\<forall>(model, cnt)\<in>set models. cnt \<le> int (card (set names \<inter> serving slices rc resources model)))"

lemma does_matchModels:
  assumes "distinct matched"
  shows "does P (pred_option (matchedAll slices rc resources models matched))
    (matchModels E slices labelPrefix d rc resources matched models)"
  using assms
proof (induction models arbitrary: matched)
  case Nil
  then show ?case by (auto simp: matchedAll_def intro: does_ret)
next
  case (Cons mc models)
  obtain model cnt where mc [simp]: "mc = (model, cnt)" by (cases mc)
  have step: "does P (pred_option (matchedAll slices rc resources (mc # models) matched))
      (matchModels E slices labelPrefix d rc resources (matched @ new) models)"
    if new: "distinct new" "set new \<inter> set matched = {}"
      "set new \<subseteq> serving slices rc resources model" "cnt \<le> int (length new)" for new
  proof (rule does_weaken [OF Cons.IH])
    show "distinct (matched @ new)" using Cons.prems new by auto
    fix r
    assume r: "pred_option (matchedAll slices rc resources models (matched @ new)) r"
    have "int (length new) \<le> int (card (set names \<inter> serving slices rc resources model))"
      if "set new \<subseteq> set names" for names
      using new that by (auto simp: distinct_card [symmetric] intro!: card_mono)
    with r new(4) show "pred_option (matchedAll slices rc resources (mc # models) matched) r"
      by (cases r) (auto simp: matchedAll_def intro: order_trans)
  qed
  show ?case
    unfolding mc matchModels.simps
    by (rule does_andThen [OF does_matchModel [OF order_refl]])
      (use step in \<open>auto simp: matchResult_def intro!: does_if does_ret\<close>)
qed

lemma emits_annotateMatched [does_rules]:
  "(\<And>n v ok. P (PatchAnnotation n (labelPrefix @ ''/last-used-time'') v, ok)) \<Longrightarrow>
   emits P (annotateMatched E labelPrefix matched)"
  unfolding annotateMatched_def by (auto intro!: does_rules)

lemma allPreparing_iff: "allPreparing rc \<longleftrightarrow> \<not> list_ex (\<lambda>d. rcd_State d \<noteq> ''Preparing'') (rci_Devices rc)"
  by (auto simp: allPreparing_def list_all_iff list_ex_iff)

lemma emits_matchModels [does_rules]:
  "distinct matched \<Longrightarrow> emits P (matchModels E slices labelPrefix d rc resources matched models)"
  using does_matchModels by (rule does_True)

lemma does_setDevicesState:
  assumes "\<And>ds ok. marked conditionType ds \<Longrightarrow>
    P (PatchClaimStatus (rci_Namespace rc) (rci_Name rc) ds, ok)"
  shows "does P (\<lambda>rc'. rc' = withState targetState rc) (setDevicesState E rc targetState conditionType)"
  unfolding setDevicesState_def by (auto intro!: does_rules assms)

lemma does_notifyClaim:
  assumes k: "k < length infos"
  shows "does (notifyEvent labelPrefix (claimIds infos)) (marks ''Reschedule'' allPreparing infos)
    (notifyClaim E slices labelPrefix d resources infos k)"
proof (cases "allPreparing (infos ! k)")
  case False
  then show ?thesis
    by (simp add: notifyClaim_def Let_def allPreparing_iff does_ret)
next
  case True
  note state = does_setDevicesState [where P = "notifyEvent labelPrefix (claimIds infos)" and rc = "infos ! k"
      and conditionType = "''FabricDeviceReschedule''" and targetState = "''Reschedule''" and E = E]
  show ?thesis
    unfolding notifyClaim_def Let_def
    using True nth_claimIds [OF k] marks_update [of allPreparing infos k "''Reschedule''", OF True]
    by (auto intro!: does_if does_ret does_seq [OF emits_rangeOrder] does_seq [OF emits_matchModels]
        does_case_option does_andThen [OF does_wrapErr [OF state]] does_seq [OF emits_annotateMatched]
        simp: notifyEvent_def)
qed

interpretation notify_pass: claim_pass
    "notifyClaim E slices labelPrefix d resources" "''Reschedule''" allPreparing "notifyEvent labelPrefix"
    for E slices labelPrefix d resources
  by unfold_locales (rule does_notifyClaim)

text \<open>The two passes: the claims sorted, then marked.\<close>

lemma does_RescheduleFailedNotification:
  "does (failEvent (claimIds infos))
     (\<lambda>infos'. \<exists>sorted. mset sorted = mset infos \<and> sortedBy ''Descending'' sorted \<and>
        marks ''Failed'' somePreparing sorted infos')
     (RescheduleFailedNotification E node infos slices spec)"
  unfolding RescheduleFailedNotification_def
  by (intro does_seq [OF does_wrapErr [OF does_readOp]] failed_pass.sorted_pass) simp

lemma does_RescheduleNotification:
  "does (notifyEvent labelPrefix (claimIds infos))
     (\<lambda>infos'. \<exists>sorted. mset sorted = mset infos \<and>
        (sorted = infos \<or> sortedBy ''Ascending'' sorted) \<and>
        marks ''Reschedule'' allPreparing sorted infos')
     (RescheduleNotification E infos slices labelPrefix d)"
  unfolding RescheduleNotification_def
  by (intro does_seq [OF does_wrapErr [OF does_readOp]] does_if does_ret)
    (auto intro: does_weaken [OF notify_pass.sorted_pass])

section \<open>Properties\<close>

text \<open>
  Property C24. In a configuration without duplicate indices and model names, two models coexist
  according to \<open>isDeviceCoexistence\<close> exactly when they are equal or the entry of the first does not
  list the index of the second.
\<close>

theorem coexistence_meaning:
  assumes "distinct (map di_Index (sp_DeviceInfos spec))"
    and "distinct (map di_CDIModelName (sp_DeviceInfos spec))"
  shows "isDeviceCoexistence m1 m2 spec \<longleftrightarrow>
     m1 = m2 \<or> \<not> (\<exists>i\<in>set (sp_DeviceInfos spec). \<exists>j\<in>set (sp_DeviceInfos spec).
        di_CDIModelName i = m1 \<and> di_CDIModelName j = m2 \<and> di_Index j \<in> set (di_CannotCoexistWith i))"
  using assms by (rule isDeviceCoexistence_spec)

theorem coexistence_meaning_witness:
  "\<not> isDeviceCoexistence ''A40'' ''H100'' sampleSpec \<and> isDeviceCoexistence ''A40'' ''T4'' sampleSpec"
proof -
  have "distinct (map di_Index (sp_DeviceInfos sampleSpec))" "distinct (map di_CDIModelName (sp_DeviceInfos sampleSpec))"
    by code_simp+
  from coexistence_meaning [OF this] show ?thesis by (simp add: sample_defs)
qed

lemma set_setMax:
  "c \<in> set (setMax d model n models) \<Longrightarrow> c \<in> set models \<or> (mc_DeviceName c = d \<and> mc_Model c = model)"
  by (induction models) (auto split: if_splits)

lemma set_setMin:
  "c \<in> set (setMin d model n models) \<Longrightarrow> c \<in> set models \<or> (mc_DeviceName c = d \<and> mc_Model c = model)"
  by (induction models) (auto split: if_splits)

lemma labelLoop_models:
  assumes "labelLoop spec labels models = Ok models'"
    and "\<And>c. c \<in> set models \<Longrightarrow> getModelName spec (mc_DeviceName c) = Ok (mc_Model c)"
    and "c \<in> set models'"
  shows "getModelName spec (mc_DeviceName c) = Ok (mc_Model c)"
  using assms
proof (induction labels arbitrary: models)
  case (Cons kv labels)
  obtain k v where kv: "kv = (k, v)" by (cases kv)
  from Cons.prems obtain mid where step: "labelStep spec (k, v) models = Ok mid"
    and rest: "labelLoop spec labels mid = Ok models'" by (auto simp: kv)
  have "getModelName spec (mc_DeviceName e) = Ok (mc_Model e)" if "e \<in> set mid" for e
    using step that Cons.prems(2) by (cases rule: labelStep_cases) (auto dest: set_setMax set_setMin)
  with Cons.IH [OF rest] Cons.prems(3) show ?case by blast
qed auto

text \<open>
  Property C25. End to end from the labels of a node to its limits: for a device whose model no other
  device has, \<open>GetModelLimit\<close> returns the value of the label \<open>prefix/name-size-max\<close>, or 50 without
  it, and the value of \<open>prefix/name-size-min\<close>, or 0 without it.
\<close>

theorem limits_from_labels:
  assumes "distinct (map fst (node_Labels node))" and "nodeInfo spec node = Ok info"
    and "getModelName spec d = Ok m" and "\<forall>e. getModelName spec e = Ok m \<longrightarrow> e = d"
  shows "GetModelLimit info m =
    (orElse (labelInt spec (node_Labels node) d ''-size-max'') 50,
     orElse (labelInt spec (node_Labels node) d ''-size-min'') 0)"
proof -
  from assms(2) have models: "labelLoop spec (node_Labels node) [] = Ok (ni_Models info)"
    by (auto simp: nodeInfo_def)
  have exp: "constraintFor (ni_Models info) d = expectedConstraint spec (node_Labels node) d"
    using labelLoop_expected [OF assms(1) models] by blast
  have "getModelName spec (mc_DeviceName c) = Ok (mc_Model c)" if "c \<in> set (ni_Models info)" for c
    using labelLoop_models [OF models _ that] by simp
  then have "find (\<lambda>c. mc_Model c = m) (ni_Models info) = constraintFor (ni_Models info) d"
    using assms(3,4) by (intro find_cong refl) (metis outcome.inject(1))
  then have "find (\<lambda>c. mc_Model c = m) (ni_Models info) = expectedConstraint spec (node_Labels node) d"
    using exp by simp
  then show ?thesis
    by (cases "labelInt spec (node_Labels node) d ''-size-max''"; cases "labelInt spec (node_Labels node) d ''-size-min''")
      (simp_all add: GetModelLimit_def expectedConstraint_def orElse_def)
qed

theorem limits_from_labels_witness: "GetModelLimit sampleNode ''A40'' = (2, 1)"
proof -
  let ?node = "\<lparr>node_Name = ''n1'', node_Labels = sampleLabels\<rparr>"
  have keys: "distinct (map fst (node_Labels ?node))" by code_simp
  have node: "nodeInfo sampleSpec ?node = Ok sampleNode" by code_simp
  have model: "getModelName sampleSpec ''a40'' = Ok ''A40''" by code_simp
  have only: "\<forall>e. getModelName sampleSpec e = Ok ''A40'' \<longrightarrow> e = ''a40''"
  proof (intro allI impI)
    fix e
    assume "getModelName sampleSpec e = Ok ''A40''"
    from getModelName_Ok [OF this] show "e = ''a40''"
      by (auto simp: sampleSpec_def sampleDevices_def sampleDevice_def)
  qed
  have "labelInt sampleSpec (node_Labels ?node) ''a40'' ''-size-max'' = Some 2"
    "labelInt sampleSpec (node_Labels ?node) ''a40'' ''-size-min'' = Some 1" by code_simp+
  then show ?thesis unfolding limits_from_labels [OF keys node model only] by (simp only: orElse_def option.case)
qed

text \<open>
  Property C15. In every environment, the failed pass returns the claims sorted newest first, each
  unchanged or with all its devices set to \<open>Failed\<close>, the latter only if one of them was waiting; and
  it writes nothing but \<open>FabricDeviceFailed\<close> conditions to claims it was given.
\<close>

theorem failed_pass_effect:
  "does (failEvent (claimIds infos))
     (\<lambda>infos'. \<exists>sorted. mset sorted = mset infos \<and> sortedBy ''Descending'' sorted \<and>
        list_all2 (\<lambda>c c'. c' = c \<or> somePreparing c \<and> c' = withState ''Failed'' c) sorted infos')
     (RescheduleFailedNotification E node infos slices spec)"
  using does_RescheduleFailedNotification unfolding marks_def .

text \<open>
  Property C16. In every environment, the reschedule pass writes nothing but \<open>FabricDeviceReschedule\<close>
  conditions to claims it was given and the last-used time of resources. When it completes it returns the
  claims oldest first, each unchanged or with all its devices set to \<open>Reschedule\<close>, the latter only if all
  of them were waiting; without resources it returns them as they were and writes nothing.
\<close>

theorem reschedule_pass_effect:
  "emits (notifyEvent labelPrefix (claimIds infos)) (RescheduleNotification E infos slices labelPrefix d) \<and>
   (RescheduleNotification E infos slices labelPrefix d s = (Ok infos', t) \<longrightarrow>
     (if fst (listComposableResources E (wld s)) = Inr [] then infos' = infos \<and> calls t = calls s
      else \<exists>sorted. mset sorted = mset infos \<and> sortedBy ''Ascending'' sorted \<and>
        list_all2 (\<lambda>c c'. c' = c \<or> allPreparing c \<and> c' = withState ''Reschedule'' c) sorted infos'))"
proof (intro conjI impI)
  show "emits (notifyEvent labelPrefix (claimIds infos)) (RescheduleNotification E infos slices labelPrefix d)"
    by (rule does_weaken [OF does_RescheduleNotification]) simp_all
next
  assume "RescheduleNotification E infos slices labelPrefix d s = (Ok infos', t)"
  then obtain resources s1 where read: "fst (listComposableResources E (wld s)) = Inr resources" "calls s1 = calls s"
    and rest: "(if resources = [] then ret infos
      else andThen (sortByTime E infos ''Ascending'') (\<lambda>sorted.
        foldM (notifyClaim E slices labelPrefix d resources) sorted [0..<length sorted])) s1 = (Ok infos', t)"
    unfolding RescheduleNotification_def by (auto dest!: read_then_cases)
  show "if fst (listComposableResources E (wld s)) = Inr [] then infos' = infos \<and> calls t = calls s
      else \<exists>sorted. mset sorted = mset infos \<and> sortedBy ''Ascending'' sorted \<and>
        list_all2 (\<lambda>c c'. c' = c \<or> allPreparing c \<and> c' = withState ''Reschedule'' c) sorted infos'"
  proof (cases "resources = []")
    case True
    with rest read show ?thesis by (simp add: ret_def)
  next
    case False
    with rest have "andThen (sortByTime E infos ''Ascending'') (\<lambda>sorted.
        foldM (notifyClaim E slices labelPrefix d resources) sorted [0..<length sorted]) s1 = (Ok infos', t)" by simp
    from doesD_value [OF notify_pass.sorted_pass this] False read show ?thesis by (auto simp: marks_def)
  qed
qed

theorem reschedule_pass_effect_witness:
  "\<exists>sorted. mset sorted = mset [sampleInfo 0 ''c1'' 6 [''A40''], sampleInfo 1 ''c2'' 5 [''A40'']] \<and>
     sortedBy ''Ascending'' sorted \<and>
     list_all2 (\<lambda>c c'. c' = c \<or> allPreparing c \<and> c' = withState ''Reschedule'' c) sorted
       [sampleInfo 1 ''c2'' 5 [''A40''], sampleInfo 0 ''c1'' 6 [''A40'']]"
proof -
  let ?m = "RescheduleNotification (memEnv []) [sampleInfo 0 ''c1'' 6 [''A40''], sampleInfo 1 ''c2'' 5 [''A40'']]
    [sampleSliceInfo] ''co.hdi'' 60"
  let ?s = "sampleState [] [sampleResource ''r0'' ''T4'' ''GPU-0''] []"
  have "fst (?m ?s) = Ok [sampleInfo 1 ''c2'' 5 [''A40''], sampleInfo 0 ''c1'' 6 [''A40'']]" by code_simp
  note run = run_eqI [OF this]
  have "fst (listComposableResources (memEnv []) (wld ?s)) \<noteq> Inr []" by (simp add: sampleState_def sampleCluster_def)
  with conjunct2 [OF reschedule_pass_effect, rule_format, OF run] show ?thesis by (simp only: if_False)
qed

text \<open>
  Property C14. In every environment, a successful match of a claim takes distinct resources and, for
  every model of the claim, at least as many as the claim waits for that are online on the node, of
  the model, not being deleted and listed in a slice.
\<close>

theorem match_serves_claim:
  "does (\<lambda>_. False)
     (\<lambda>r. case r of None \<Rightarrow> True | Some names \<Rightarrow> distinct names \<and>
        list_all (\<lambda>(model, cnt). cnt \<le> int (card (set names \<inter>
           {cr_Name r | r. r \<in> set resources \<and> eligible slices rc model r}))) models)
     (matchModels E slices labelPrefix d rc resources [] models)"
  by (rule does_weaken [OF does_matchModels [of "[]"]])
    (auto simp: matchedAll_def serving_def list_all_iff split: option.split)

text \<open>
  Two configured devices of one model: the limit of the model is that of the label that the iteration
  over the labels meets first.
\<close>

lemma shared_model_limit_depends_on_order:
  "(let spec = sampleSpec\<lparr>sp_DeviceInfos := [sampleDevice 1 ''A40'' ''a40'' [], sampleDevice 2 ''A40'' ''big'' []]\<rparr>;
        labels = [(''co.hdi/a40-size-max'', ''1''), (''co.hdi/big-size-max'', ''4'')];
        limit = (\<lambda>ls. case nodeInfo spec \<lparr>node_Name = ''n1'', node_Labels = ls\<rparr> of
                         Ok node \<Rightarrow> fst (GetModelLimit node ''A40'') | _ \<Rightarrow> 0)
    in limit labels = 1 \<and> limit (rev labels) = 4)"
  by code_simp

end
