(* ===== verification/Notifications.thy ===== *)
theory Notifications
  imports RescheduleUtils
begin

text \<open>
  The two notification passes of \<open>reschedule_utils.go\<close> against a snapshot of the cluster: which
  claims the reschedule pass notifies, and that the claims that survive the failed pass are
  compatible with each other and with the node, and within the limits of the node.
\<close>

section \<open>Which claims are notified\<close>

text \<open>
  A resource the scheduler may hand out now: eligible, in no pod's allocation, and not used
  within the last \<open>deviceNoAllocation\<close>.
\<close>

definition idle :: "'w env \<Rightarrow> gotime \<Rightarrow> string \<Rightarrow> int \<Rightarrow> ComposableResource \<Rightarrow> bool" where
  "idle E t labelPrefix d resource \<longleftrightarrow>
     (case cr_Annotations resource (labelPrefix @ ''/last-used-time'') of
        None \<Rightarrow> True
      | Some str \<Rightarrow> (case parseRFC3339 E str of Inl _ \<Rightarrow> False | Inr u \<Rightarrow> Sub t u > d))"

definition available ::
    "'w env \<Rightarrow> ResourceClaim list \<Rightarrow> gotime \<Rightarrow> ResourceSliceInfo list \<Rightarrow> string \<Rightarrow> int \<Rightarrow>
     ResourceClaimInfo \<Rightarrow> string \<Rightarrow> ComposableResource \<Rightarrow> bool" where
  "available E claims t slices labelPrefix d rc model resource \<longleftrightarrow>
     eligible slices rc model resource \<and> \<not> usedByPod claims slices resource \<and>
     idle E t labelPrefix d resource"

text \<open>Every model of the claim has as many available resources as the claim waits for.\<close>

definition servable ::
    "'w env \<Rightarrow> ResourceClaim list \<Rightarrow> gotime \<Rightarrow> ResourceSliceInfo list \<Rightarrow> string \<Rightarrow> int \<Rightarrow>
     ComposableResource list \<Rightarrow> ResourceClaimInfo \<Rightarrow> bool" where
  "servable E claims t slices labelPrefix d resources rc \<longleftrightarrow>
     list_all (\<lambda>(model, cnt).
         cnt \<le> int (length (filter (available E claims t slices labelPrefix d rc model) resources)))
       (getUniqueModelsWithCounts rc)"

context quiet_api
begin

lemma isOvertime_run:
  "isOvertime E r labelPrefix d s = (Ok (idle E (fst (clock E (wld s))) labelPrefix d r), s)"
  by (auto simp: isOvertime_def isLastUsedOverThreshold_def idle_def run_simps
      split: option.split sum.split)

lemma candidate_run:
  "candidate E slices labelPrefix d rc model matched r s =
     (Ok (available E (claimsOf (wld s)) (fst (clock E (wld s))) slices labelPrefix d rc model r \<and>
          cr_Name r \<notin> set matched), s)"
  by (auto simp: candidate_def available_def eligible_def usedByPod_def isOvertime_run run_simps
      split: option.split)

lemma matchModel_run:
  assumes "distinct (map cr_Name rs)" and "k < cnt"
    and "\<And>r. r \<in> set rs \<Longrightarrow> cr_Model r = model \<Longrightarrow> cr_Name r \<notin> set matched"
  shows "matchModel E slices labelPrefix d rc model cnt matched k rs s =
     (let av = filter (available E (claimsOf (wld s)) (fst (clock E (wld s))) slices labelPrefix d rc model) rs
      in (Ok (matched @ map cr_Name (take (nat (cnt - k)) av), cnt - k \<le> int (length av)), s))"
  using assms
proof (induction rs arbitrary: matched k)
  case Nil
  then show ?case by (simp add: run_simps)
next
  case (Cons r rs)
  let ?av = "available E (claimsOf (wld s)) (fst (clock E (wld s))) slices labelPrefix d rc model"
  have nat: "nat (cnt - k) = Suc (nat (cnt - (k + 1)))" using Cons.prems by simp
  have IH: "matchModel E slices labelPrefix d rc model cnt m j rs s =
      (Ok (m @ map cr_Name (take (nat (cnt - j)) (filter ?av rs)), cnt - j \<le> int (length (filter ?av rs))), s)"
    if "j < cnt" "\<And>r. r \<in> set rs \<Longrightarrow> cr_Model r = model \<Longrightarrow> cr_Name r \<notin> set m" for m j
    using Cons.IH [OF _ that] Cons.prems(1) by (simp add: Let_def)
  show ?case
  proof (cases "?av r")
    case True
    then have new: "cr_Name r \<notin> set matched"
      using Cons.prems(3) [of r] by (simp add: available_def eligible_def)
    have others: "cr_Name r' \<notin> set (matched @ [cr_Name r])" if "r' \<in> set rs" "cr_Model r' = model" for r'
      using that Cons.prems(1) Cons.prems(3) [of r'] by (auto simp: image_iff)
    show ?thesis
    proof (cases "k + 1 < cnt")
      case more: True
      show ?thesis using True new more IH [OF more others]
        by (simp add: andThen_run(1) [OF candidate_run] Let_def nat) linarith
    next
      case False
      with Cons.prems(2) have "cnt = k + 1" by simp
      with True new show ?thesis
        by (simp add: andThen_run(1) [OF candidate_run] Let_def ret_run)
    qed
  next
    case False
    with Cons.prems IH [of k matched] show ?thesis
      by (auto simp: andThen_run(1) [OF candidate_run] Let_def)
  qed
qed

text \<open>The match succeeds exactly when every model has enough available resources.\<close>

lemma matchModels_run:
  assumes "distinct (map cr_Name resources)" and "distinct (map fst models)"
    and "list_all (\<lambda>mc. 0 < snd mc) models"
    and "\<And>r. r \<in> set resources \<Longrightarrow> cr_Model r \<in> fst ` set models \<Longrightarrow> cr_Name r \<notin> set matched"
  shows "\<exists>r. matchModels E slices labelPrefix d rc resources matched models s = (Ok r, s) \<and>
     (r \<noteq> None \<longleftrightarrow> list_all (\<lambda>(model, cnt). cnt \<le> int (length (filter
        (available E (claimsOf (wld s)) (fst (clock E (wld s))) slices labelPrefix d rc model) resources))) models)"
  using assms(2-)
proof (induction models arbitrary: matched)
  case Nil
  then show ?case by (simp add: run_simps)
next
  case (Cons mc models)
  obtain m c where mc [simp]: "mc = (m, c)" by (cases mc)
  let ?av = "filter (available E (claimsOf (wld s)) (fst (clock E (wld s))) slices labelPrefix d rc m) resources"
  let ?new = "map cr_Name (take (nat c) ?av)"
  have c: "0 < c" using Cons.prems(2) by simp
  have fresh: "cr_Name r \<notin> set matched" if "r \<in> set resources" "cr_Model r = m" for r
    using Cons.prems(3) [OF that(1)] that(2) by simp
  have first: "matchModel E slices labelPrefix d rc m c matched 0 resources s =
      (Ok (matched @ ?new, c \<le> int (length ?av)), s)"
    using matchModel_run [OF assms(1) c fresh, where slices = slices and labelPrefix = labelPrefix and d = d
        and rc = rc and s = s] by (simp add: Let_def)
  have rest: "cr_Name r \<notin> set (matched @ ?new)"
    if r: "r \<in> set resources" "cr_Model r \<in> fst ` set models" for r
  proof -
    have "cr_Model r \<noteq> m" using Cons.prems(1) r(2) by auto
    then have "\<forall>x\<in>set ?av. x \<noteq> r \<and> x \<in> set resources" by (auto simp: available_def eligible_def)
    then have "cr_Name r \<notin> cr_Name ` set ?av"
      using assms(1) r(1) by (auto simp: distinct_map dest: inj_onD)
    then have "cr_Name r \<notin> set ?new" using set_take_subset by fastforce
    with r Cons.prems(3) show ?thesis by auto
  qed
  have pos: "list_all (\<lambda>mc. 0 < snd mc) models" using Cons.prems(2) by simp
  have dist: "distinct (map fst models)" using Cons.prems(1) by simp
  from Cons.IH [OF dist pos rest] show ?case
    by (auto simp: andThen_run(1) [of "matchModel E slices labelPrefix d rc m c matched 0 resources", OF first] ret_run)
qed

lemma notifyClaim_Ok:
  assumes names: "distinct (map cr_Name resources)"
    and run: "notifyClaim E slices labelPrefix d resources infos k s = (Ok infos', t)"
  shows "if allPreparing (infos ! k) \<and> servable E (claimsOf (wld s)) (fst (clock E (wld s))) slices labelPrefix d
              resources (infos ! k)
         then infos' = infos[k := withState ''Reschedule'' (infos ! k)]
         else infos' = infos \<and> t = s"
proof (cases "allPreparing (infos ! k)")
  case False
  with run show ?thesis by (simp add: notifyClaim_def Let_def allPreparing_iff ret_run)
next
  case True
  let ?models = "getUniqueModelsWithCounts (infos ! k)"
  let ?order = "arrange (fst (choice E (wld s))) ?models"
  let ?enough = "\<lambda>(model, cnt). cnt \<le> int (length (filter
        (available E (claimsOf (wld s)) (fst (clock E (wld s))) slices labelPrefix d (infos ! k) model) resources))"
  have perm: "mset ?order = mset ?models" by simp
  then have same: "set ?order = set ?models" by (rule mset_eq_setD)
  have "mset (map fst ?order) = mset (map fst ?models)" using perm by simp
  then have dist: "distinct (map fst ?order)"
    using getUniqueModelsWithCounts_spec(1) by (metis mset_eq_imp_distinct_iff)
  have "0 < c" if "(m, c) \<in> set ?models" for m c
    using map_of_is_SomeI [OF getUniqueModelsWithCounts_spec(1) that] getUniqueModelsWithCounts_spec(2) [of "infos ! k" m]
    by (auto simp: Let_def split: if_splits)
  then have pos: "list_all (\<lambda>mc. 0 < snd mc) ?order" by (auto simp: list_all_iff same)
  obtain r where r: "matchModels E slices labelPrefix d (infos ! k) resources [] ?order s = (Ok r, s)"
    and iff: "r \<noteq> None \<longleftrightarrow> list_all ?enough ?order"
    using matchModels_run [OF names dist pos, where matched = "[]" and s = s and slices = slices
        and labelPrefix = labelPrefix and d = d and rc = "infos ! k"] by auto
  have "r \<noteq> None \<longleftrightarrow> servable E (claimsOf (wld s)) (fst (clock E (wld s))) slices labelPrefix d
              resources (infos ! k)"
    unfolding iff servable_def list_all_iff same ..
  moreover have "allPreparing (infos ! k) \<longleftrightarrow> \<not> list_ex (\<lambda>d. rcd_State d \<noteq> ''Preparing'') (rci_Devices (infos ! k))"
    by (rule allPreparing_iff)
  ultimately show ?thesis using run True r
    by (cases r) (auto simp: notifyClaim_def Let_def andThen_run(1) [OF rangeOrder_run]
        andThen_run(1) [of "matchModels E slices labelPrefix d (infos ! k) resources [] ?order", OF r] ret_run andThen_Ok setDevicesState_def)
qed

end

section \<open>Limits\<close>

definition withinLimit ::
    "NodeInfo \<Rightarrow> ResourceSliceInfo list \<Rightarrow> ResourceClaim list \<Rightarrow> ComposableResource list \<Rightarrow>
     ResourceClaimInfo list \<Rightarrow> string \<Rightarrow> bool" where
  "withinLimit node slices claims resources infos m \<longleftrightarrow>
     configuredCount claims resources infos slices m (ni_Name node) \<le> fst (GetModelLimit node m)"

definition limited ::
    "NodeInfo \<Rightarrow> ResourceSliceInfo list \<Rightarrow> ResourceClaim list \<Rightarrow> ComposableResource list \<Rightarrow>
     ResourceClaimInfo list \<Rightarrow> nat \<Rightarrow> bool" where
  "limited node slices claims resources infos k \<longleftrightarrow>
     (allPreparing (infos ! k) \<longrightarrow>
        (\<forall>d\<in>set (rci_Devices (infos ! k)). withinLimit node slices claims resources infos (rcd_Model d)))"

lemma getPreparing_marks:
  assumes "marks ''Failed'' p infos infos'"
  shows "getPreparingRescheduleDevicesCount infos' m n \<le> getPreparingRescheduleDevicesCount infos m n"
proof -
  define cnt :: "ResourceClaimInfo \<Rightarrow> int" where
    "cnt rc = int (length (filter (\<lambda>d. rcd_Model d = m \<and>
       (rcd_State d = ''Preparing'' \<or> rcd_State d = ''Reschedule'')) (rci_Devices rc)))" for rc
  have "cnt (withState ''Failed'' c) = 0" for c
    by (auto simp: cnt_def filter_empty_conv dest: withState_states)
  moreover have "0 \<le> cnt c" for c by (simp add: cnt_def)
  ultimately have le: "cnt c' \<le> cnt c \<and> rci_NodeName c' = rci_NodeName c"
    if "c' = c \<or> p c \<and> c' = withState ''Failed'' c" for c c'
    using that by auto
  have "sum_list (map cnt (filter (\<lambda>rc. rci_NodeName rc = n) infos')) \<le>
      sum_list (map cnt (filter (\<lambda>rc. rci_NodeName rc = n) infos))"
    using assms unfolding marks_def
  proof (induction rule: list_all2_induct)
    case (Cons c cs c' cs')
    from le [OF Cons(1)] Cons.IH show ?case by (simp add: add_mono)
  qed simp
  then show ?thesis by (simp only: getPreparing_eq cnt_def [abs_def])
qed

lemma withinLimit_marks:
  "marks ''Failed'' p infos infos' \<Longrightarrow> withinLimit node slices claims resources infos m \<Longrightarrow>
   withinLimit node slices claims resources infos' m"
  using getPreparing_marks [of p infos infos' m "ni_Name node"]
  by (simp add: withinLimit_def configuredCount_def)

lemma kept_if_preparing:
  assumes "marks ''Failed'' somePreparing infos infos'" and "k < length infos" and "allPreparing (infos' ! k)"
  shows "infos' ! k = infos ! k"
  using marks_nth [OF assms(1,2)] assms(3) Failed_not_allPreparing [OF somePreparing_nonempty]
  by auto

lemma limited_marks:
  assumes "marks ''Failed'' somePreparing infos infos'" and "k < length infos"
    and "limited node slices claims resources infos k"
  shows "limited node slices claims resources infos' k"
  unfolding limited_def
proof (intro impI ballI)
  fix d
  assume prep: "allPreparing (infos' ! k)" and d: "d \<in> set (rci_Devices (infos' ! k))"
  with kept_if_preparing [OF assms(1,2)] assms(3)
  have "withinLimit node slices claims resources infos (rcd_Model d)" by (simp add: limited_def)
  then show "withinLimit node slices claims resources infos' (rcd_Model d)"
    by (rule withinLimit_marks [OF assms(1)])
qed

text \<open>
  The limit loop, over the models visited so far: the claim is given up or all of them are
  within their limits.
\<close>

definition limitInv ::
    "NodeInfo \<Rightarrow> ResourceSliceInfo list \<Rightarrow> ResourceClaim list \<Rightarrow> ComposableResource list \<Rightarrow>
     ResourceClaimInfo list \<Rightarrow> nat \<Rightarrow> (string \<times> int) list \<Rightarrow> ResourceClaimInfo list \<Rightarrow> bool" where
  "limitInv node slices claims resources infos k visited b \<longleftrightarrow>
     marks ''Failed'' somePreparing infos b \<and>
     (allPreparing (b ! k) \<longrightarrow>
        (\<forall>m\<in>fst ` set visited. withinLimit node slices claims resources b m))"

context quiet_api
begin

lemma keeps_failClaim [under_rules]: "keeps (steady w0) (failClaim E infos k rc)"
  unfolding failClaim_def setDevicesState_def by (intro under_rules) auto

lemma keeps_failedDevices [under_rules]:
  "keeps (steady w0) (failedDevices E spec requests resources k rc infos i devs)"
proof (induction devs arbitrary: i infos)
  case (Cons dev devs)
  have "keeps (steady w0) (failedDevice E spec requests resources k rc infos i dev)"
    unfolding failedDevice_def by (intro under_rules) auto
  with Cons show ?case by (auto intro!: under_rules)
qed (simp add: under_ret)

lemma under_GetConfiguredDeviceCount:
  "under (steady w0) (\<lambda>n. n = configuredCount (claimsOf w0) (resourcesOf w0) infos slices m nodeName)
     (GetConfiguredDeviceCount E m nodeName infos slices)"
  unfolding under_def
proof (intro allI impI conjI)
  fix s :: "('w, api_call) st" and x
  assume "steady w0 (wld s)"
  then show "steady w0 (wld (snd (GetConfiguredDeviceCount E m nodeName infos slices s)))"
    by (simp add: GetConfiguredDeviceCount_run)
  assume "fst (GetConfiguredDeviceCount E m nodeName infos slices s) = Ok x"
  with \<open>steady w0 (wld s)\<close>
  show "x = configuredCount (claimsOf w0) (resourcesOf w0) infos slices m nodeName"
    using podAllocated_cong [of "resourcesOf (wld s)" "resourcesOf w0" "claimsOf (wld s)" "claimsOf w0" slices m nodeName]
    by (simp add: GetConfiguredDeviceCount_run configuredCount_def sameViews_def)
qed

lemma under_limitStep:
  assumes k: "k < length infos" and some: "somePreparing (infos ! k)"
    and b: "limitInv node slices (claimsOf w0) (resourcesOf w0) infos k visited b"
  shows "under (steady w0) (limitInv node slices (claimsOf w0) (resourcesOf w0) infos k (visited @ [e]))
    (limitStep E node slices k (infos ! k) b e)"
proof -
  have marks: "marks ''Failed'' somePreparing infos b" using b by (simp add: limitInv_def)
  then have len: "k < length b" using k by (simp add: marks_length)
  have dead: "limitInv node slices (claimsOf w0) (resourcesOf w0) infos k vs (b[k := withState ''Failed'' (infos ! k)])" for vs
    using marks len some somePreparing_nonempty [OF some]
    by (auto simp: limitInv_def marks_def list_all2_conv_all_nth nth_list_update Failed_not_allPreparing)
  have fail: "under (steady w0) (\<lambda>b'. b' = b[k := withState ''Failed'' (infos ! k)])
      (failClaim E b k (infos ! k))"
    by (rule under_weaken [OF under_does [OF keeps_failClaim does_failClaim [OF nth_claimIds [OF k]]]]) simp
  have kept: "limitInv node slices (claimsOf w0) (resourcesOf w0) infos k (visited @ [e]) b"
    if "withinLimit node slices (claimsOf w0) (resourcesOf w0) b (fst e)"
    using b that by (auto simp: limitInv_def)
  have "under (steady w0) (limitInv node slices (claimsOf w0) (resourcesOf w0) infos k (visited @ [e]))
      (failClaim E b k (infos ! k))"
    using fail by (rule under_weaken) (simp add: dead)
  with kept show ?thesis
    unfolding limitStep_def
    by (intro under_andThen [OF under_wrapErr [OF under_GetConfiguredDeviceCount]] under_if under_ret)
      (auto simp: withinLimit_def not_less)
qed

lemma under_failedClaim:
  assumes k: "k < length infos"
  shows "under (steady w0)
    (\<lambda>b. marks ''Failed'' somePreparing infos b \<and>
         limited node slices (claimsOf w0) (resourcesOf w0) b k)
    (failedClaim E node slices spec requests resources infos k)"
  unfolding failedClaim_def
proof (rule under_andThen [OF under_does [OF keeps_failedDevices does_failedDevices [OF k]]])
  show "drop 0 (rci_Devices (infos ! k)) = rci_Devices (infos ! k)" by simp
  fix r
  assume r: "deviceResult spec requests resources infos k {0..<length (rci_Devices (infos ! k))} r \<and> True"
  obtain infos' nxt where [simp]: "r = (infos', nxt)" by (cases r)
  let ?Q = "\<lambda>b. marks ''Failed'' somePreparing infos b \<and>
         limited node slices (claimsOf w0) (resourcesOf w0) b k"
  have loop: "under (steady w0) ?Q (foldM (limitStep E node slices k (infos ! k)) infos modelMap)"
    if perm: "mset modelMap = mset (getUniqueModelsWithCounts (infos ! k))" for modelMap
  proof (cases "somePreparing (infos ! k)")
    case False
    then have "modelMap = []" using perm no_models by simp
    moreover have "rci_Devices (infos ! k) = []" if "allPreparing (infos ! k)"
      using that False by (cases "rci_Devices (infos ! k)") (auto simp: allPreparing_def somePreparing_def)
    ultimately show ?thesis by (auto simp: limited_def intro: under_ret)
  next
    case True
    have "under (steady w0) (limitInv node slices (claimsOf w0) (resourcesOf w0) infos k modelMap)
        (foldM (limitStep E node slices k (infos ! k)) infos modelMap)"
      by (rule under_foldM, simp add: limitInv_def) (rule under_limitStep [OF k True])
    moreover have "?Q b" if "limitInv node slices (claimsOf w0) (resourcesOf w0) infos k modelMap b" for b
    proof -
      have "set modelMap = set (getUniqueModelsWithCounts (infos ! k))" using perm by (rule mset_eq_setD)
      moreover have "rcd_Model d \<in> fst ` set (getUniqueModelsWithCounts (infos ! k))"
        if "allPreparing (infos ! k)" "d \<in> set (rci_Devices (infos ! k))" for d
        using that by (intro models_of_claim) (auto simp: allPreparing_def list_all_iff)
      ultimately show ?thesis
        using that kept_if_preparing [OF _ k, of b] unfolding limitInv_def limited_def by metis
    qed
    ultimately show ?thesis by (rule under_weaken)
  qed
  have order: "under (steady w0) (\<lambda>ys. mset ys = mset xs \<and> True) (rangeOrder E xs)" for xs :: "(string \<times> int) list"
    by (rule under_does [OF keeps_rangeOrder does_rangeOrder])
  show "under (steady w0) ?Q (case r of (infos', nxt) \<Rightarrow> if nxt then ret infos'
       else andThen (rangeOrder E (getUniqueModelsWithCounts (infos ! k))) (\<lambda>modelMap.
            foldM (limitStep E node slices k (infos ! k)) infos' modelMap))"
    using r loop by (auto simp: limited_def intro!: under_if under_ret under_andThen [OF order])
qed

lemma under_failedPass:
  "under (steady w0)
    (\<lambda>b. \<forall>k<length b. limited node slices (claimsOf w0) (resourcesOf w0) b k)
    (foldM (failedClaim E node slices spec requests resources) infos [0..<length infos])"
proof -
  let ?L = "limited node slices (claimsOf w0) (resourcesOf w0)"
  let ?I = "\<lambda>n b. marks ''Failed'' somePreparing infos b \<and> (\<forall>k<n. ?L b k)"
  have "under (steady w0) (?I (length infos))
    (foldM (failedClaim E node slices spec requests resources) infos [0..<length infos])"
  proof (rule under_foldM_upt [where I = ?I])
    fix k b
    assume k: "k < length infos" and b: "?I k b"
    then have len: "length b = length infos" using marks_length by blast
    show "under (steady w0) (?I (Suc k)) (failedClaim E node slices spec requests resources b k)"
    proof (rule under_weaken [OF under_failedClaim])
      show "k < length b" using k len by simp
      fix c
      assume c: "marks ''Failed'' somePreparing b c \<and> ?L c k"
      then have "?L c j" if "j < k" for j
        using limited_marks [of b c j] b k len that by simp
      with b c show "?I (Suc k) c" by (auto simp: less_Suc_eq intro: marks_trans)
    qed
  qed simp
  then show ?thesis by (rule under_weaken) (metis marks_length)
qed

end

section \<open>The failed pass\<close>

text \<open>
  A claim is compatible: no device of it conflicts with another device of the claim, with a
  request for its node, with a resource of its node, or with a device that another claim waits for.
\<close>

definition compatible ::
    "ComposableDRASpec \<Rightarrow> ComposabilityRequest list \<Rightarrow> ComposableResource list \<Rightarrow>
     ResourceClaimInfo list \<Rightarrow> ResourceClaimInfo \<Rightarrow> bool" where
  "compatible spec requests resources infos c \<longleftrightarrow>
     (\<forall>d\<in>set (rci_Devices c).
        (\<forall>d'\<in>set (rci_Devices c). isDeviceCoexistence (rcd_Model d) (rcd_Model d') spec) \<and>
        (\<forall>q\<in>set requests. req_Size q > 0 \<and> req_TargetNode q = rci_NodeName c \<longrightarrow>
           isDeviceCoexistence (rcd_Model d) (req_Model q) spec) \<and>
        (\<forall>r\<in>set resources. (cr_State r = ''Online'' \<or> cr_State r = ''Attaching'') \<and>
           cr_TargetNode r = rci_NodeName c \<longrightarrow> isDeviceCoexistence (rcd_Model d) (cr_Model r) spec) \<and>
        (\<forall>c'\<in>set infos. rci_Name c' \<noteq> rci_Name c \<longrightarrow>
           (\<forall>d'\<in>set (rci_Devices c'). rcd_State d' = ''Preparing'' \<longrightarrow>
              isDeviceCoexistence (rcd_Model d) (rcd_Model d') spec)))"

lemma siblings_coexist:
  assumes "\<not> siblingConflict spec rc i (rci_Devices rc ! i)" and "j < length (rci_Devices rc)"
  shows "isDeviceCoexistence (rcd_Model (rci_Devices rc ! i)) (rcd_Model (rci_Devices rc ! j)) spec"
proof (cases "i = j \<or> rcd_Model (rci_Devices rc ! i) = rcd_Model (rci_Devices rc ! j)")
  case False
  have "(j, rci_Devices rc ! j) \<in> set (enumerate 0 (rci_Devices rc))"
    using assms(2) by (simp add: in_set_enumerate_eq)
  with False assms(1) show ?thesis by (auto simp: siblingConflict_def list_ex_iff)
qed auto

lemma others_coexist:
  assumes "\<not> claimConflict spec rc dev c'" and "rci_Name c' \<noteq> rci_Name rc"
    and "d' \<in> set (rci_Devices c')" and "rcd_State d' = ''Preparing''"
  shows "isDeviceCoexistence (rcd_Model dev) (rcd_Model d') spec"
  using assms by (cases "rcd_Model dev = rcd_Model d'") (auto simp: claimConflict_def list_ex_iff)

lemma settled_compatible:
  assumes "settled spec requests resources infos k" and "allPreparing (infos ! k)"
  shows "compatible spec requests resources infos (infos ! k)"
  unfolding compatible_def
proof (intro ballI)
  fix d
  assume "d \<in> set (rci_Devices (infos ! k))"
  then obtain i where i: "i < length (rci_Devices (infos ! k))" "d = rci_Devices (infos ! k) ! i"
    by (metis in_set_conv_nth)
  with assms have pass: "devicePassed spec requests resources infos (infos ! k) i"
    by (simp add: settled_def)
  have sib: "\<forall>d'\<in>set (rci_Devices (infos ! k)). isDeviceCoexistence (rcd_Model d) (rcd_Model d') spec"
    using pass i siblings_coexist [of spec "infos ! k" i]
    by (auto simp: devicePassed_def Let_def in_set_conv_nth)
  have other: "isDeviceCoexistence (rcd_Model d) (rcd_Model d') spec"
    if "c' \<in> set infos" "rci_Name c' \<noteq> rci_Name (infos ! k)" "d' \<in> set (rci_Devices c')"
      "rcd_State d' = ''Preparing''" for c' d'
    using pass i that others_coexist [of spec "infos ! k" d c' d'] by (simp add: devicePassed_def Let_def)
  have node: "\<not> requestConflict spec requests (infos ! k) d" "\<not> resourceConflict spec resources (infos ! k) d"
    using pass i by (simp_all add: devicePassed_def Let_def)
  show "(\<forall>d'\<in>set (rci_Devices (infos ! k)). isDeviceCoexistence (rcd_Model d) (rcd_Model d') spec) \<and>
      (\<forall>q\<in>set requests. req_Size q > 0 \<and> req_TargetNode q = rci_NodeName (infos ! k) \<longrightarrow>
         isDeviceCoexistence (rcd_Model d) (req_Model q) spec) \<and>
      (\<forall>r\<in>set resources. (cr_State r = ''Online'' \<or> cr_State r = ''Attaching'') \<and>
         cr_TargetNode r = rci_NodeName (infos ! k) \<longrightarrow> isDeviceCoexistence (rcd_Model d) (cr_Model r) spec) \<and>
      (\<forall>c'\<in>set infos. rci_Name c' \<noteq> rci_Name (infos ! k) \<longrightarrow>
         (\<forall>d'\<in>set (rci_Devices c'). rcd_State d' = ''Preparing'' \<longrightarrow>
            isDeviceCoexistence (rcd_Model d) (rcd_Model d') spec))"
    using sib other node by (auto simp: requestConflict_def resourceConflict_def list_ex_iff)
qed

context snapshot_api
begin

lemma failed_pass_settles:
  assumes "RescheduleFailedNotification E node infos slices spec s = (Ok infos', t)"
  shows "\<forall>k<length infos'. settled spec (requestsOf (wld s)) (resourcesOf (wld s)) infos' k"
proof -
  from assms obtain sorted s' where run:
    "foldM (failedClaim E node slices spec (requestsOf (wld s)) (resourcesOf (wld s))) sorted
       [0..<length sorted] s' = (Ok infos', t)"
    unfolding RescheduleFailedNotification_def
    by (auto simp: andThen_Ok read_requests read_resources)
  from doesD_value [OF does_failedPass run] show ?thesis by (auto simp: marks_length)
qed

end

context quiet_api
begin

lemma failed_pass_limits:
  assumes run: "RescheduleFailedNotification E node infos slices spec s = (Ok infos', t)"
  shows "\<forall>k<length infos'. limited node slices (claimsOf (wld t)) (resourcesOf (wld t)) infos' k"
proof -
  let ?L = "\<lambda>w b. \<forall>k<length b. limited node slices (claimsOf w) (resourcesOf w) b k"
  have "under (steady (wld s)) (?L (wld s)) (RescheduleFailedNotification E node infos slices spec)"
    unfolding RescheduleFailedNotification_def sortByTime_def
    by (intro under_seq [OF under_wrapErr] keeps_reads under_seq [OF under_seq] under_ret under_failedPass) simp
  from underD [OF this _ run] have t: "steady (wld s) (wld t)" and L: "?L (wld s) infos'"
    by (auto simp: sameViews_def)
  have "withinLimit node slices (claimsOf (wld t)) (resourcesOf (wld t)) b m =
        withinLimit node slices (claimsOf (wld s)) (resourcesOf (wld s)) b m" for b m
    using t podAllocated_cong [of "resourcesOf (wld t)" "resourcesOf (wld s)" "claimsOf (wld t)" "claimsOf (wld s)"]
    by (simp add: withinLimit_def configuredCount_def sameViews_def)
  with L show ?thesis by (simp add: limited_def)
qed

end

section \<open>The reschedule pass\<close>

lemma servable_cong:
  "map rc_Allocation claims' = map rc_Allocation claims \<Longrightarrow>
   servable E claims' t slices labelPrefix d resources rc = servable E claims t slices labelPrefix d resources rc"
proof -
  assume a: "map rc_Allocation claims' = map rc_Allocation claims"
  have "available E claims' t slices labelPrefix d rc = available E claims t slices labelPrefix d rc"
    using usedByPod_cong [OF refl a] by (simp add: available_def fun_eq_iff)
  then show ?thesis by (simp add: servable_def)
qed

text \<open>The effect of the pass on one claim.\<close>

definition notified ::
    "'w env \<Rightarrow> ResourceClaim list \<Rightarrow> gotime \<Rightarrow> ResourceSliceInfo list \<Rightarrow> string \<Rightarrow> int \<Rightarrow>
     ComposableResource list \<Rightarrow> ResourceClaimInfo \<Rightarrow> ResourceClaimInfo" where
  "notified E claims t slices labelPrefix d resources c =
     (if allPreparing c \<and> servable E claims t slices labelPrefix d resources c
      then withState ''Reschedule'' c else c)"

context quiet_api
begin

lemma keeps_matchModel [under_rules]:
  "keeps V (matchModel E slices labelPrefix d rc model cnt matched k rs)"
proof (induction rs arbitrary: matched k)
  case (Cons r rs)
  have "keeps V (candidate E slices labelPrefix d rc model matched r)"
    by (simp add: under_def candidate_run)
  with Cons show ?case by (auto intro!: under_rules)
qed (simp add: under_ret)

lemma keeps_matchModels [under_rules]:
  "keeps V (matchModels E slices labelPrefix d rc resources matched models)"
  by (induction models arbitrary: matched) (auto intro!: under_rules)

lemma keeps_notifyClaim:
  "stable E V \<Longrightarrow> keeps V (notifyClaim E slices labelPrefix d resources infos k)"
  unfolding notifyClaim_def annotateMatched_def setDevicesState_def Let_def
  by (intro under_rules) auto

end

context frozen_api
begin

lemma under_notifyClaim:
  fixes w0
  defines "V \<equiv> \<lambda>w. steady w0 w \<and> fst (clock E w) = fst (clock E w0)"
  assumes "distinct (map cr_Name resources)"
  shows "under V (\<lambda>infos'. infos' = infos[k := notified E (claimsOf w0) (fst (clock E w0)) slices labelPrefix d
      resources (infos ! k)]) (notifyClaim E slices labelPrefix d resources infos k)"
  unfolding under_def
proof (intro allI impI conjI)
  fix s :: "('w, api_call) st" and x
  assume V: "V (wld s)"
  have "keeps V (notifyClaim E slices labelPrefix d resources infos k)"
    unfolding V_def by (rule keeps_notifyClaim) (intro under_rules)
  with V show "V (wld (snd (notifyClaim E slices labelPrefix d resources infos k s)))"
    by (simp add: under_def)
  assume "fst (notifyClaim E slices labelPrefix d resources infos k s) = Ok x"
  then obtain t where run: "notifyClaim E slices labelPrefix d resources infos k s = (Ok x, t)"
    by (metis prod.collapse)
  have cong: "servable E (claimsOf (wld s)) (fst (clock E (wld s))) slices labelPrefix d resources rc =
      servable E (claimsOf w0) (fst (clock E w0)) slices labelPrefix d resources rc" for rc
    using V servable_cong [of "claimsOf (wld s)" "claimsOf w0"] by (simp add: V_def sameViews_def)
  from notifyClaim_Ok [OF assms(2) run]
  show "x = infos[k := notified E (claimsOf w0) (fst (clock E w0)) slices labelPrefix d resources (infos ! k)]"
    by (simp add: cong notified_def split: if_splits)
qed

lemma under_notifyPass:
  fixes w0
  defines "V \<equiv> \<lambda>w. steady w0 w \<and> fst (clock E w) = fst (clock E w0)"
  assumes "distinct (map cr_Name resources)"
  shows "under V (\<lambda>infos'. infos' = map (notified E (claimsOf w0) (fst (clock E w0)) slices labelPrefix d resources) infos)
    (foldM (notifyClaim E slices labelPrefix d resources) infos [0..<length infos])"
proof -
  let ?g = "notified E (claimsOf w0) (fst (clock E w0)) slices labelPrefix d resources"
  have "under V (\<lambda>b. b = map ?g (take (length infos) infos) @ drop (length infos) infos)
      (foldM (notifyClaim E slices labelPrefix d resources) infos [0..<length infos])"
  proof (rule under_foldM_upt)
    fix i b
    assume i: "i < length infos" and b: "b = map ?g (take i infos) @ drop i infos"
    have nth: "b ! i = infos ! i" using i b by (simp add: nth_append)
    have "b[i := ?g (infos ! i)] = map ?g (take (Suc i) infos) @ drop (Suc i) infos"
      using i b by (simp add: list_update_append take_Suc_conv_app_nth Cons_nth_drop_Suc [symmetric])
    with under_notifyClaim [OF assms(2), of w0 b i slices labelPrefix d]
    show "under V (\<lambda>b. b = map ?g (take (Suc i) infos) @ drop (Suc i) infos)
        (notifyClaim E slices labelPrefix d resources b i)"
      by (simp add: V_def nth)
  qed simp
  then show ?thesis by simp
qed

lemma reschedule_pass:
  assumes names: "distinct (map cr_Name (resourcesOf (wld s)))" and some: "resourcesOf (wld s) \<noteq> []"
    and run: "RescheduleNotification E infos slices labelPrefix d s = (Ok infos', t)"
  shows "\<exists>sorted. mset sorted = mset infos \<and> sortedBy ''Ascending'' sorted \<and>
    infos' = map (notified E (claimsOf (wld s)) (fst (clock E (wld s))) slices labelPrefix d (resourcesOf (wld s))) sorted"
proof -
  from run some obtain sorted s' where sort: "sortByTime E infos ''Ascending'' s = (Ok sorted, s')"
    and loop: "foldM (notifyClaim E slices labelPrefix d (resourcesOf (wld s))) sorted [0..<length sorted] s' =
      (Ok infos', t)"
    unfolding RescheduleNotification_def by (auto simp: andThen_Ok read_resources)
  have "keeps (\<lambda>w. w = wld s) (sortByTime E infos ''Ascending'')"
    unfolding sortByTime_def by (intro under_rules) auto
  from underD [OF this refl sort] have s': "wld s' = wld s" by blast
  have "mset sorted = mset infos \<and> sortedBy ''Ascending'' sorted"
    using doesD_value [OF does_sortByTime sort] by blast
  with underD [OF under_notifyPass [OF names, of "wld s"] _ loop] s' show ?thesis
    by (auto simp: sameViews_def)
qed

end

section \<open>Properties\<close>

text \<open>
  Property C1. The claims that survive the failed pass are compatible: when every device of a claim
  still waits after the pass, no device of it conflicts with a sibling, with a request of positive
  size for the node, with an online or attaching resource of the node, or with a device that a claim
  of another name still waits for.
\<close>

theorem failed_pass_survivors_compatible:
  assumes "snapshot_api E claimsOf resourcesOf requestsOf"
    and "RescheduleFailedNotification E node infos slices spec s = (Ok infos', t)"
    and "c \<in> set infos'" and "allPreparing c"
  shows "compatible spec (requestsOf (wld s)) (resourcesOf (wld s)) infos' c"
  using snapshot_api.failed_pass_settles [OF assms(1,2)] settled_compatible assms(3,4)
  by (metis in_set_conv_nth)

theorem failed_pass_survivors_compatible_witness:
  "compatible sampleSpec [] [sampleResource ''r0'' ''A40'' ''GPU-0'']
     [withState ''Failed'' (sampleInfo 1 ''c2'' 6 [''H100'']), sampleInfo 0 ''c1'' 5 [''A40'']]
     (sampleInfo 0 ''c1'' 5 [''A40''])"
proof -
  let ?m = "RescheduleFailedNotification (memEnv sampleDevices) sampleNode
    [sampleInfo 0 ''c1'' 5 [''A40''], sampleInfo 1 ''c2'' 6 [''H100'']] [sampleSliceInfo] sampleSpec"
  let ?s = "sampleState [sampleClaim ''c1'' 5 ''a40-fabric1'', sampleClaim ''c2'' 6 ''h100-fabric1'']
    [sampleResource ''r0'' ''A40'' ''GPU-0''] []"
  have "fst (?m ?s) = Ok [withState ''Failed'' (sampleInfo 1 ''c2'' 6 [''H100'']), sampleInfo 0 ''c1'' 5 [''A40'']]"
    by code_simp
  note run = run_eqI [OF this]
  have "allPreparing (sampleInfo 0 ''c1'' 5 [''A40''])" by code_simp
  from failed_pass_survivors_compatible [OF mem.snapshot_api_axioms run _ this]
  show ?thesis by (simp add: sampleState_def sampleCluster_def)
qed

text \<open>
  Property C2. The claims that survive the failed pass are within the limits of the node: for every
  model that such a claim waits for, the number of devices that claims wait for or have been promised
  and pods use, counted in the world after the pass, is at most the maximum of the node.
\<close>

theorem failed_pass_survivors_within_limits:
  assumes "quiet_api E claimsOf resourcesOf requestsOf"
    and "RescheduleFailedNotification E node infos slices spec s = (Ok infos', t)"
    and "c \<in> set infos'" and "allPreparing c" and "d \<in> set (rci_Devices c)"
  shows "configuredCount (claimsOf (wld t)) (resourcesOf (wld t)) infos' slices (rcd_Model d) (ni_Name node)
         \<le> fst (GetModelLimit node (rcd_Model d))"
proof -
  from assms(3) obtain k where "k < length infos'" "c = infos' ! k" by (metis in_set_conv_nth)
  with quiet_api.failed_pass_limits [OF assms(1,2)] assms(4,5) show ?thesis
    by (simp add: limited_def withinLimit_def)
qed

theorem failed_pass_survivors_within_limits_witness:
  "(let run = RescheduleFailedNotification (memEnv sampleDevices) sampleNode
        [sampleInfo 0 ''c1'' 5 [''A40''], sampleInfo 1 ''c2'' 6 [''A40'', ''A40'']] [sampleSliceInfo] sampleSpec
        (sampleState [sampleClaim ''c1'' 5 ''a40-fabric1'', sampleClaim ''c2'' 6 ''a40-fabric2'']
           [sampleResource ''r0'' ''A40'' ''GPU-0''] [])
    in configuredCount (cl_claims (wld (snd run))) (cl_resources (wld (snd run)))
         [withState ''Failed'' (sampleInfo 1 ''c2'' 6 [''A40'', ''A40'']), sampleInfo 0 ''c1'' 5 [''A40'']]
         [sampleSliceInfo] ''A40'' ''n1'' \<le> 2)"
proof -
  let ?m = "RescheduleFailedNotification (memEnv sampleDevices) sampleNode
    [sampleInfo 0 ''c1'' 5 [''A40''], sampleInfo 1 ''c2'' 6 [''A40'', ''A40'']] [sampleSliceInfo] sampleSpec"
  let ?s = "sampleState [sampleClaim ''c1'' 5 ''a40-fabric1'', sampleClaim ''c2'' 6 ''a40-fabric2'']
    [sampleResource ''r0'' ''A40'' ''GPU-0''] []"
  let ?c1 = "sampleInfo 0 ''c1'' 5 [''A40'']"
  have "fst (?m ?s) = Ok [withState ''Failed'' (sampleInfo 1 ''c2'' 6 [''A40'', ''A40'']), ?c1]"
    by code_simp
  note run = run_eqI [OF this]
  have prep: "allPreparing ?c1" by code_simp
  obtain d where d: "d \<in> set (rci_Devices ?c1)" "rcd_Model d = ''A40''" by (simp add: sampleInfo_def)
  have node: "ni_Name sampleNode = ''n1''" "fst (GetModelLimit sampleNode ''A40'') = 2"
    by (simp_all add: sampleNode_def GetModelLimit_def)
  show ?thesis
    using failed_pass_survivors_within_limits [OF mem.quiet_api_axioms run _ prep d(1)]
    unfolding d(2) node Let_def by simp
qed

text \<open>
  Property C3. The reschedule pass, against a snapshot whose clock stands still, is a function of each
  claim alone: the claims come back oldest first, and a claim is set to \<open>Reschedule\<close> exactly when all
  its devices wait and for every model the node has as many available resources (online, not being
  deleted, listed in a slice, used by no pod, idle long enough) as the claim waits for.
\<close>

theorem reschedule_pass_reference:
  assumes "frozen_api E claimsOf resourcesOf requestsOf"
    and "distinct (map cr_Name (resourcesOf (wld s)))" and "resourcesOf (wld s) \<noteq> []"
    and "RescheduleNotification E infos slices labelPrefix d s = (Ok infos', t)"
  shows "\<exists>sorted. mset sorted = mset infos \<and> sortedBy ''Ascending'' sorted \<and>
    infos' = map (\<lambda>c. if allPreparing c \<and>
        servable E (claimsOf (wld s)) (fst (clock E (wld s))) slices labelPrefix d (resourcesOf (wld s)) c
      then withState ''Reschedule'' c else c) sorted"
  using frozen_api.reschedule_pass [OF assms] unfolding notified_def .

theorem reschedule_pass_reference_witness:
  "\<exists>sorted. mset sorted = mset [sampleInfo 0 ''c1'' 5 [''A40'', ''A40''], sampleInfo 1 ''c2'' 6 [''A40'']] \<and>
     sortedBy ''Ascending'' sorted \<and>
     [sampleInfo 0 ''c1'' 5 [''A40'', ''A40''], withState ''Reschedule'' (sampleInfo 1 ''c2'' 6 [''A40''])] =
     map (\<lambda>c. if allPreparing c \<and> servable (memEnv []) [sampleClaim ''c1'' 5 ''a40-fabric1'', sampleClaim ''c2'' 6 ''a40-fabric2'']
             (Nanos 1000) [sampleSliceInfo] ''co.hdi'' 60 [sampleResource ''r0'' ''A40'' ''GPU-0''] c
           then withState ''Reschedule'' c else c) sorted"
proof -
  let ?m = "RescheduleNotification (memEnv [])
    [sampleInfo 0 ''c1'' 5 [''A40'', ''A40''], sampleInfo 1 ''c2'' 6 [''A40'']] [sampleSliceInfo] ''co.hdi'' 60"
  let ?claims = "[sampleClaim ''c1'' 5 ''a40-fabric1'', sampleClaim ''c2'' 6 ''a40-fabric2'']"
  let ?s = "sampleState ?claims [sampleResource ''r0'' ''A40'' ''GPU-0''] []"
  have "fst (?m ?s) = Ok [sampleInfo 0 ''c1'' 5 [''A40'', ''A40''], withState ''Reschedule'' (sampleInfo 1 ''c2'' 6 [''A40''])]"
    by code_simp
  note run = run_eqI [OF this]
  have w: "cl_resources (wld ?s) = [sampleResource ''r0'' ''A40'' ''GPU-0'']" "cl_claims (wld ?s) = ?claims"
    "fst (clock (memEnv []) (wld ?s)) = Nanos 1000" by (simp_all add: sampleState_def sampleCluster_def)
  have "distinct (map cr_Name (cl_resources (wld ?s)))" "cl_resources (wld ?s) \<noteq> []" unfolding w by simp_all
  from reschedule_pass_reference [OF mem.frozen_api_axioms this run] show ?thesis unfolding w .
qed

text \<open>
  Property C40. Claims are judged one by one against the list read at the start, so a device is promised
  to any number of claims: against a snapshot whose clock stands still, when every claim waits for one
  device and the only resource available to each is the same \<open>x\<close>, a pass that completes sets all of them
  to \<open>Reschedule\<close>.
\<close>

theorem one_device_promised_to_every_claim:
  assumes "frozen_api E claimsOf resourcesOf requestsOf"
    and "distinct (map cr_Name (resourcesOf (wld s)))" and "x \<in> set (resourcesOf (wld s))"
    and "\<forall>c\<in>set infos. \<exists>dev. rci_Devices c = [dev] \<and> rcd_State dev = ''Preparing'' \<and>
      filter (available E (claimsOf (wld s)) (fst (clock E (wld s))) slices labelPrefix d c (rcd_Model dev))
        (resourcesOf (wld s)) = [x]"
    and "RescheduleNotification E infos slices labelPrefix d s = (Ok infos', t)"
  shows "mset infos' = image_mset (withState ''Reschedule'') (mset infos)"
proof -
  let ?one = "notified E (claimsOf (wld s)) (fst (clock E (wld s))) slices labelPrefix d (resourcesOf (wld s))"
  have "resourcesOf (wld s) \<noteq> []" using assms(3) by auto
  from frozen_api.reschedule_pass [OF assms(1,2) this assms(5)] obtain sorted where
    sorted: "mset sorted = mset infos" "infos' = map ?one sorted" by blast
  have "?one c = withState ''Reschedule'' c" if c: "c \<in> set sorted" for c
  proof -
    from c sorted(1) assms(4) obtain dev where dev: "rci_Devices c = [dev]" "rcd_State dev = ''Preparing''"
      "filter (available E (claimsOf (wld s)) (fst (clock E (wld s))) slices labelPrefix d c (rcd_Model dev))
        (resourcesOf (wld s)) = [x]" by (metis mset_eq_setD)
    then have "getUniqueModelsWithCounts c = [(rcd_Model dev, 1)]" by (simp add: getUniqueModelsWithCounts_def)
    with dev show ?thesis by (simp add: notified_def servable_def allPreparing_def)
  qed
  then have "infos' = map (withState ''Reschedule'') sorted" by (simp add: sorted(2))
  with sorted(1) show ?thesis by simp
qed

theorem one_device_promised_to_every_claim_witness:
  "(case fst (RescheduleNotification (memEnv []) [sampleInfo 0 ''c1'' 5 [''A40''], sampleInfo 1 ''c2'' 6 [''A40'']]
       [sampleSliceInfo] ''co.hdi'' 60 (sampleState [sampleClaim ''c1'' 5 ''a40-fabric1'', sampleClaim ''c2'' 6 ''a40-fabric2'']
         [sampleResource ''r0'' ''A40'' ''GPU-0''] [])) of
      Ok infos' \<Rightarrow> mset infos' = image_mset (withState ''Reschedule'')
        (mset [sampleInfo 0 ''c1'' 5 [''A40''], sampleInfo 1 ''c2'' 6 [''A40'']])
    | _ \<Rightarrow> False)"
proof -
  let ?infos = "[sampleInfo 0 ''c1'' 5 [''A40''], sampleInfo 1 ''c2'' 6 [''A40'']]"
  let ?claims = "[sampleClaim ''c1'' 5 ''a40-fabric1'', sampleClaim ''c2'' 6 ''a40-fabric2'']"
  let ?x = "sampleResource ''r0'' ''A40'' ''GPU-0''"
  let ?s = "sampleState ?claims [?x] []"
  let ?m = "RescheduleNotification (memEnv []) ?infos [sampleSliceInfo] ''co.hdi'' 60"
  have w: "cl_resources (wld ?s) = [?x]" "cl_claims (wld ?s) = ?claims" "fst (clock (memEnv []) (wld ?s)) = Nanos 1000"
    by (simp_all add: sampleState_def sampleCluster_def)
  have "list_all (\<lambda>c. available (memEnv []) ?claims (Nanos 1000) [sampleSliceInfo] ''co.hdi'' 60 c ''A40'' ?x) ?infos"
    by code_simp
  then have only: "\<forall>c\<in>set ?infos. \<exists>dev. rci_Devices c = [dev] \<and> rcd_State dev = ''Preparing'' \<and>
      filter (available (memEnv []) (cl_claims (wld ?s)) (fst (clock (memEnv []) (wld ?s))) [sampleSliceInfo] ''co.hdi'' 60 c
        (rcd_Model dev)) (cl_resources (wld ?s)) = [?x]"
    unfolding w by (simp add: sampleInfo_def)
  have ok: "fst (?m ?s) = Ok (map (withState ''Reschedule'') ?infos)" by code_simp
  note run = run_eqI [OF ok]
  have "distinct (map cr_Name (cl_resources (wld ?s)))" "?x \<in> set (cl_resources (wld ?s))" unfolding w by simp_all
  from one_device_promised_to_every_claim [OF mem.frozen_api_axioms this only run]
  show ?thesis unfolding ok outcome.case .
qed

text \<open>
  Two claims of the same name in different namespaces are not compared: both stay \<open>Preparing\<close>
  although their models exclude each other.
\<close>

lemma same_name_claims_not_compared:
  "(let a = sampleInfo 0 ''c'' 5 [''A40''];
        b = (sampleInfo 1 ''c'' 6 [''H100''])\<lparr>rci_Namespace := ''other''\<rparr>
    in \<not> isDeviceCoexistence ''A40'' ''H100'' sampleSpec \<and>
       fst (RescheduleFailedNotification (memEnv []) sampleNode [a, b] [sampleSliceInfo] sampleSpec
         (sampleState [] [] [])) = Ok [b, a])"
  by code_simp

end
