(* ===== verification/Controller.thy ===== *)
theory Controller
  imports Notifications
begin

text \<open>
  \<open>src/internal/controller/resourcemonitor_controller.go\<close>: the reconciler. One call of
  \<open>Reconcile\<close> reads the cluster, refreshes the last-used times, and then treats the nodes one
  by one: the failed pass, the reschedule pass, the requests for devices, the node labels.
\<close>

section \<open>Definitions\<close>

record ResourceMonitorReconciler =
  r_ScanInterval :: int
  r_DeviceNoRemoval :: int
  r_DeviceNoAllocation :: int

record Result =
  res_RequeueAfter :: int

definition collectInfo ::
    "'w env \<Rightarrow> ('w, ResourceClaimInfo list \<times> ResourceSliceInfo list \<times> NodeInfo list \<times> ComposableDRASpec) io" where
  "collectInfo E =
     andThen (wrapErr ''failed to get ComposableDRASpec from ConfigMap'' (GetConfigMapInfo E)) (\<lambda>spec.
     andThen (wrapErr ''failed to get ResourceClaimInfo'' (GetResourceClaimInfo E spec)) (\<lambda>claims.
     andThen (wrapErr ''failed to get ResourceSliceInfo'' (GetResourceSliceInfo E)) (\<lambda>slices.
     andThen (wrapErr ''failed to get NodeInfo'' (GetNodeInfo E spec)) (\<lambda>nodes.
     ret (claims, slices, nodes, spec)))))"

definition touchResource ::
    "'w env \<Rightarrow> ResourceSliceInfo list \<Rightarrow> string \<Rightarrow> ComposableResource \<Rightarrow> ('w, unit) io" where
  "touchResource E slices labelPrefix resource =
     (if cr_State resource = ''Online'' then
        (case IsDeviceResourceSliceRed (cr_DeviceID resource) slices of
           None \<Rightarrow> ret ()
         | Some (slice, deviceName) \<Rightarrow>
             andThen (wrapErr ''failed to check if device is used by pod''
               (IsDeviceUsedByPod E deviceName slice)) (\<lambda>isUsed.
             if isUsed then
               andThen (now E) (\<lambda>t.
               wrapErr ''failed to update ComposableResource''
                 (PatchComposableResourceAnnotation E (cr_Name resource)
                    (labelPrefix @ ''/last-used-time'') (formatRFC3339 E t)))
             else ret ()))
      else ret ())"

definition updateComposableResourceLastUsedTime ::
    "'w env \<Rightarrow> ResourceSliceInfo list \<Rightarrow> string \<Rightarrow> ('w, unit) io" where
  "updateComposableResourceLastUsedTime E slices labelPrefix =
     andThen (wrapErr ''failed to list ComposableResourceList''
       (readOp (listComposableResources E))) (\<lambda>resources.
     foldM (\<lambda>_. touchResource E slices labelPrefix) () resources)"

text \<open>One device of the configuration, for one node.\<close>

definition handleDevice ::
    "'w env \<Rightarrow> ResourceMonitorReconciler \<Rightarrow> NodeInfo \<Rightarrow> ResourceClaimInfo list \<Rightarrow>
     ResourceSliceInfo list \<Rightarrow> ComposableDRASpec \<Rightarrow> ComposabilityRequest list \<Rightarrow> DeviceInfo \<Rightarrow> ('w, unit) io" where
  "handleDevice E r node infos slices spec requests device =
     andThen (wrapErr ''failed to get configured device count''
       (GetConfiguredDeviceCount E (di_CDIModelName device) (ni_Name node) infos slices)) (\<lambda>configured.
     case GetModelLimit node (di_CDIModelName device) of
       (maxCountLimit, minCountLimit) \<Rightarrow>
         if configured > maxCountLimit then raise (ExceedsMaxLimit configured maxCountLimit)
         else
           let wanted = (if configured < minCountLimit then minCountLimit else configured)
           in case find (\<lambda>cr. req_Model cr = di_CDIModelName device \<and>
                              req_TargetNode cr = ni_Name node) requests of
                Some cr \<Rightarrow>
                  if wanted > req_Size cr then
                    wrapErr ''failed to attach devices''
                      (DynamicAttach E (Some cr) wanted (req_Type cr) (di_CDIModelName device) (ni_Name node))
                  else if wanted < req_Size cr then
                    wrapErr ''failed to detach devices''
                      (DynamicDetach E cr wanted (ni_Name node) (sp_LabelPrefix spec) (r_DeviceNoRemoval r))
                  else ret ()
              | None \<Rightarrow>
                  if wanted > 0 then
                    wrapErr ''failed to attach devices''
                      (DynamicAttach E None wanted (GetDriverType (di_DriverName device))
                         (di_CDIModelName device) (ni_Name node))
                  else ret ())"

definition handleDevices ::
    "'w env \<Rightarrow> ResourceMonitorReconciler \<Rightarrow> NodeInfo \<Rightarrow> ResourceClaimInfo list \<Rightarrow>
     ResourceSliceInfo list \<Rightarrow> ComposableDRASpec \<Rightarrow> ('w, unit) io" where
  "handleDevices E r node infos slices spec =
     andThen (wrapErr ''failed to list ComposabilityRequestList''
       (readOp (listComposabilityRequests E))) (\<lambda>requests.
     foldM (\<lambda>_. handleDevice E r node infos slices spec requests) () (sp_DeviceInfos spec))"

text \<open>
  The claims of a node are copies of the collected claims that share their device arrays; what
  the passes write into the arrays is seen through the collected claims by the nodes after.
\<close>

definition shareDevices ::
    "ResourceClaimInfo list \<Rightarrow> ResourceClaimInfo list \<Rightarrow> ResourceClaimInfo list" where
  "shareDevices nodeClaims infos =
     map (\<lambda>c. case find (\<lambda>n. rci_arr n = rci_arr c) nodeClaims of
                None \<Rightarrow> c
              | Some n \<Rightarrow> c\<lparr>rci_Devices := rci_Devices n\<rparr>) infos"

definition handleNode ::
    "'w env \<Rightarrow> ResourceMonitorReconciler \<Rightarrow> ResourceSliceInfo list \<Rightarrow> ComposableDRASpec \<Rightarrow>
     ResourceClaimInfo list \<Rightarrow> NodeInfo \<Rightarrow> ('w, ResourceClaimInfo list) io" where
  "handleNode E r slices spec infos node =
     andThen (wrapErr ''failed to reschedule failed notification''
       (RescheduleFailedNotification E node
          (filter (\<lambda>c. rci_NodeName c = ni_Name node) infos) slices spec)) (\<lambda>claims1.
     andThen (wrapErr ''failed to reschedule notification''
       (RescheduleNotification E claims1 slices (sp_LabelPrefix spec) (r_DeviceNoAllocation r))) (\<lambda>claims2.
     andThen (wrapErr ''failed to handle devices''
       (handleDevices E r node claims2 slices spec)) (\<lambda>_.
     andThen (wrapErr ''failed to update node label''
       (UpdateNodeLabel E node spec)) (\<lambda>_.
     ret (shareDevices claims2 infos)))))"

definition handleNodes ::
    "'w env \<Rightarrow> ResourceMonitorReconciler \<Rightarrow> NodeInfo list \<Rightarrow> ResourceClaimInfo list \<Rightarrow>
     ResourceSliceInfo list \<Rightarrow> ComposableDRASpec \<Rightarrow> ('w, ResourceClaimInfo list) io" where
  "handleNodes E r nodes infos slices spec =
     foldM (handleNode E r slices spec) infos nodes"

definition Reconcile :: "'w env \<Rightarrow> ResourceMonitorReconciler \<Rightarrow> ('w, Result) io" where
  "Reconcile E r =
     andThen (collectInfo E) (\<lambda>(claims, slices, nodes, spec).
     andThen (updateComposableResourceLastUsedTime E slices (sp_LabelPrefix spec)) (\<lambda>_.
     andThen (handleNodes E r nodes claims slices spec) (\<lambda>_.
     ret \<lparr>res_RequeueAfter = r_ScanInterval r\<rparr>)))"

section \<open>Collecting information\<close>

lemma does_GetConfigMapInfo: "does P wf_spec (GetConfigMapInfo E)"
  unfolding GetConfigMapInfo_def by (auto intro!: does_rules dest: composableDRASpecOf_wf)

lemma does_GetResourceClaimInfo: "does P wf_infos (GetResourceClaimInfo E spec)"
  unfolding GetResourceClaimInfo_def by (auto intro!: does_rules dest: claimInfos_wf)

lemma does_collectInfo:
  "does P (\<lambda>(claims, slices, nodes, spec). wf_infos claims \<and> wf_spec spec) (collectInfo E)"
  unfolding collectInfo_def GetResourceSliceInfo_def GetNodeInfo_def
  by (intro does_andThen [OF does_wrapErr [OF does_GetConfigMapInfo]]
      does_andThen [OF does_wrapErr [OF does_GetResourceClaimInfo]] does_rules) auto

section \<open>Requests for devices\<close>

text \<open>
  What may be requested for one device of the configuration on a node: a new request only when
  there is none yet, and a new size of a request for that model and node; never below the minimum
  of the node, and above the maximum only when the minimum is.
\<close>

definition deviceEvent :: "NodeInfo \<Rightarrow> ComposabilityRequest list \<Rightarrow> DeviceInfo \<Rightarrow> event \<Rightarrow> bool" where
  "deviceEvent node requests device e \<longleftrightarrow>
     (let model = di_CDIModelName device; mx = fst (GetModelLimit node model); mn = snd (GetModelLimit node model)
      in case fst e of
           CreateRequest g ty m cnt n \<Rightarrow>
             g = ''composability-'' \<and> ty = GetDriverType (di_DriverName device) \<and> m = model \<and>
             n = ni_Name node \<and> 0 < cnt \<and> mn \<le> cnt \<and> cnt \<le> max mx mn \<and>
             (\<forall>cr\<in>set requests. \<not> (req_Model cr = model \<and> req_TargetNode cr = n))
         | PatchRequestSize q sz \<Rightarrow>
             (\<exists>cr\<in>set requests. req_Name cr = q \<and> req_Model cr = model \<and> req_TargetNode cr = ni_Name node \<and>
                0 \<le> sz \<and> mn \<le> sz \<and> sz \<noteq> req_Size cr \<and> (req_Size cr < sz \<longrightarrow> sz \<le> max mx mn))
         | _ \<Rightarrow> False)"

lemma deviceEvent_intros:
  "\<lbrakk>GetModelLimit node (di_CDIModelName device) = (mx, mn); 0 < cnt; mn \<le> cnt; cnt \<le> max mx mn;
    find (\<lambda>cr. req_Model cr = di_CDIModelName device \<and> req_TargetNode cr = ni_Name node) requests = None\<rbrakk>
   \<Longrightarrow> deviceEvent node requests device
         (CreateRequest ''composability-'' (GetDriverType (di_DriverName device)) (di_CDIModelName device) cnt
            (ni_Name node), ok)"
  "\<lbrakk>GetModelLimit node (di_CDIModelName device) = (mx, mn); 0 \<le> sz; mn \<le> sz; sz \<noteq> req_Size cr;
    req_Size cr < sz \<longrightarrow> sz \<le> max mx mn;
    find (\<lambda>cr. req_Model cr = di_CDIModelName device \<and> req_TargetNode cr = ni_Name node) requests = Some cr\<rbrakk>
   \<Longrightarrow> deviceEvent node requests device (PatchRequestSize (req_Name cr) sz, ok)"
  unfolding deviceEvent_def Let_def by (auto simp: find_None_iff find_Some_iff intro: nth_mem)

lemma emits_handleDevice:
  "emits (deviceEvent node requests device) (handleDevice E r node infos slices spec requests device)"
  unfolding handleDevice_def
proof (rule does_andThen [OF does_wrapErr [OF does_GetConfiguredDeviceCount]], rule does_case_prod,
    rule does_if, rule does_raise, unfold Let_def, rule does_case_option)
  fix cnt mx mn :: int
  assume cnt: "0 \<le> cnt" and lim: "GetModelLimit node (di_CDIModelName device) = (mx, mn)" and le: "\<not> mx < cnt"
  let ?find = "find (\<lambda>cr. req_Model cr = di_CDIModelName device \<and> req_TargetNode cr = ni_Name node) requests"
  let ?wanted = "if cnt < mn then mn else cnt"
  have w: "0 \<le> ?wanted" "mn \<le> ?wanted" "?wanted \<le> max mx mn" using cnt le by auto
  show "emits (deviceEvent node requests device)
      (if ?wanted > 0 then wrapErr ''failed to attach devices''
         (DynamicAttach E None ?wanted (GetDriverType (di_DriverName device)) (di_CDIModelName device) (ni_Name node))
       else ret ())" if "?find = None"
    using that w by (intro does_if does_wrapErr emits_DynamicAttach does_ret)
      (auto intro: deviceEvent_intros(1) [OF lim])
  show "emits (deviceEvent node requests device)
      (if ?wanted > req_Size cr then wrapErr ''failed to attach devices''
         (DynamicAttach E (Some cr) ?wanted (req_Type cr) (di_CDIModelName device) (ni_Name node))
       else if ?wanted < req_Size cr then wrapErr ''failed to detach devices''
         (DynamicDetach E cr ?wanted (ni_Name node) (sp_LabelPrefix spec) (r_DeviceNoRemoval r))
       else ret ())" if "?find = Some cr" for cr
    using that w by (intro does_if does_wrapErr emits_DynamicAttach emits_DynamicDetach does_ret)
      (auto intro!: deviceEvent_intros(2) [OF lim] simp del: if_split_asm)
qed

lemma does_handleDevices_calls:
  "does (\<lambda>e. \<exists>requests. \<exists>device\<in>set (sp_DeviceInfos spec). deviceEvent node requests device e) (\<lambda>_. True)
     (handleDevices E r node infos slices spec)"
  unfolding handleDevices_def
  by (intro does_rules) (auto intro: does_weaken [OF emits_handleDevice])

context snapshot_api
begin

lemma handleDevices_calls:
  assumes "handleDevices E r node infos slices spec s = (res, t)"
  shows "\<exists>new. calls t = calls s @ new \<and>
    list_all (\<lambda>e. \<exists>device\<in>set (sp_DeviceInfos spec). deviceEvent node (requestsOf (wld s)) device e) new"
proof -
  have "emits (\<lambda>e. \<exists>device\<in>set (sp_DeviceInfos spec). deviceEvent node (requestsOf (wld s)) device e)
    (foldM (\<lambda>_. handleDevice E r node infos slices spec (requestsOf (wld s))) () (sp_DeviceInfos spec))"
    by (intro does_rules) (auto intro: does_weaken [OF emits_handleDevice])
  from doesD_calls [OF this] assms show ?thesis
    by (auto simp: handleDevices_def andThen_def wrapErr_def read_requests)
qed

end

section \<open>Last-used times\<close>

text \<open>The stamp of one resource.\<close>

definition stampResource :: "'w env \<Rightarrow> string \<Rightarrow> ComposableResource \<Rightarrow> ('w, unit) io" where
  "stampResource E labelPrefix resource =
     andThen (now E) (\<lambda>t.
     wrapErr ''failed to update ComposableResource''
       (PatchComposableResourceAnnotation E (cr_Name resource) (labelPrefix @ ''/last-used-time'')
          (formatRFC3339 E t)))"

context quiet_api
begin

lemma touchResource_run:
  "touchResource E slices labelPrefix resource s =
     (if cr_State resource = ''Online'' \<and> usedByPod (claimsOf (wld s)) slices resource
      then stampResource E labelPrefix resource s else (Ok (), s))"
  by (auto simp: touchResource_def stampResource_def usedByPod_def run_simps split: option.split)

lemma keeps_stampResource [under_rules]: "stable E V \<Longrightarrow> keeps V (stampResource E labelPrefix resource)"
  unfolding stampResource_def by (intro under_rules) auto

lemma touch_loop:
  assumes "steady w0 (wld s)"
  shows "foldM (\<lambda>_. touchResource E slices labelPrefix) () rs s =
    foldM (\<lambda>_. stampResource E labelPrefix) ()
      (filter (\<lambda>r. cr_State r = ''Online'' \<and> usedByPod (claimsOf w0) slices r) rs) s"
  using assms
proof (induction rs arbitrary: s)
  case (Cons r rs)
  have used: "usedByPod (claimsOf (wld s)) slices r = usedByPod (claimsOf w0) slices r"
    using Cons.prems by (intro usedByPod_cong) (auto simp: sameViews_def)
  obtain res t where run: "stampResource E labelPrefix r s = (res, t)" by fastforce
  have "steady w0 (wld t)"
    using underD [OF keeps_stampResource [OF stable_steady] Cons.prems run] by blast
  with Cons used run show ?case
    by (cases res) (auto simp: andThen_def touchResource_run)
qed simp

lemma updateComposableResourceLastUsedTime_run:
  "updateComposableResourceLastUsedTime E slices labelPrefix s =
     foldM (\<lambda>_. stampResource E labelPrefix) ()
       (filter (\<lambda>r. cr_State r = ''Online'' \<and> usedByPod (claimsOf (wld s)) slices r) (resourcesOf (wld s))) s"
  using touch_loop [of "wld s" s]
  by (simp add: updateComposableResourceLastUsedTime_def andThen_def wrapErr_def read_resources sameViews_def)

end

section \<open>Everything a reconciliation writes\<close>

text \<open>
  What a reconciliation may write, given the configuration, the claims and the nodes it has
  collected: labels of configured devices on collected nodes, the last-used time of resources,
  conditions of collected claims, and requests for configured models on collected nodes.
\<close>

definition safeEvent ::
    "ComposableDRASpec \<Rightarrow> (string \<times> string) set \<Rightarrow> string set \<Rightarrow> event \<Rightarrow> bool" where
  "safeEvent spec ids nodeNames e \<longleftrightarrow>
     (case fst e of
        PatchNodeLabels n p \<Rightarrow>
          n \<in> nodeNames \<and>
          (\<forall>(k, v)\<in>set p. k \<in> labelOf spec ` set (sp_DeviceInfos spec) \<and> (v = None \<or> v = Some ''true''))
      | PatchAnnotation n k v \<Rightarrow> k = sp_LabelPrefix spec @ ''/last-used-time''
      | PatchRequestSize q sz \<Rightarrow> 0 \<le> sz
      | PatchClaimStatus ns n ds \<Rightarrow>
          (ns, n) \<in> ids \<and> (marked ''FabricDeviceFailed'' ds \<or> marked ''FabricDeviceReschedule'' ds)
      | CreateRequest g ty m cnt n \<Rightarrow>
          g = ''composability-'' \<and> 0 < cnt \<and> n \<in> nodeNames \<and>
          m \<in> di_CDIModelName ` set (sp_DeviceInfos spec))"

lemma claimIds_filter: "claimIds (filter p infos) \<subseteq> claimIds infos"
  by (auto simp: claimIds_def)

lemma emits_updateLastUsed:
  "emits (safeEvent spec ids ns) (updateComposableResourceLastUsedTime E slices (sp_LabelPrefix spec))"
  unfolding updateComposableResourceLastUsedTime_def touchResource_def
  by (auto intro!: does_rules simp: safeEvent_def split: option.split)

lemma failEvent_safe: "failEvent ids' e \<Longrightarrow> ids' \<subseteq> ids \<Longrightarrow> safeEvent spec ids ns e"
  by (auto simp: failEvent_def safeEvent_def)

lemma notifyEvent_safe:
  "notifyEvent (sp_LabelPrefix spec) ids' e \<Longrightarrow> ids' \<subseteq> ids \<Longrightarrow> safeEvent spec ids ns e"
  by (auto simp: notifyEvent_def safeEvent_def)

lemma deviceEvent_safe:
  "deviceEvent node requests device e \<Longrightarrow> device \<in> set (sp_DeviceInfos spec) \<Longrightarrow> ni_Name node \<in> ns \<Longrightarrow>
   safeEvent spec ids ns e"
  by (cases "fst e") (auto simp: deviceEvent_def safeEvent_def Let_def)

lemma emits_UpdateNodeLabel:
  "ni_Name node \<in> ns \<Longrightarrow> emits (safeEvent spec ids ns) (UpdateNodeLabel E node spec)"
  unfolding UpdateNodeLabel_def Let_def
  by (intro does_rules)
    (auto simp: safeEvent_def addLabels_def deleteLabels_def dest!: set_labelsPatch split: prod.split)

section \<open>The claims across nodes\<close>

text \<open>What treating a set of nodes may do to a claim: nothing, or set all its devices to one state.\<close>

definition nodeStep :: "string set \<Rightarrow> ResourceClaimInfo \<Rightarrow> ResourceClaimInfo \<Rightarrow> bool" where
  "nodeStep ns c c' \<longleftrightarrow>
     c' = c \<or> rci_NodeName c \<in> ns \<and> (c' = withState ''Failed'' c \<or> c' = withState ''Reschedule'' c)"

lemma nodeStep_refl [simp]: "nodeStep ns c c"
  by (simp add: nodeStep_def)

lemma nodeStep_simps:
  "nodeStep ns c c' \<Longrightarrow> rci_arr c' = rci_arr c" "nodeStep ns c c' \<Longrightarrow> rci_Name c' = rci_Name c"
  "nodeStep ns c c' \<Longrightarrow> rci_Namespace c' = rci_Namespace c" "nodeStep ns c c' \<Longrightarrow> rci_NodeName c' = rci_NodeName c"
  "nodeStep ns c c' \<Longrightarrow> c\<lparr>rci_Devices := rci_Devices c'\<rparr> = c'"
  by (auto simp: nodeStep_def withState_def)

lemma nodeStep_trans: "nodeStep ns c c' \<Longrightarrow> nodeStep ns c' c'' \<Longrightarrow> nodeStep ns c c''"
  by (auto simp: nodeStep_def)

lemma nodeStep_mono: "nodeStep ns c c' \<Longrightarrow> ns \<subseteq> ns' \<Longrightarrow> nodeStep ns' c c'"
  by (auto simp: nodeStep_def)

definition nodeSteps :: "string set \<Rightarrow> ResourceClaimInfo list \<Rightarrow> ResourceClaimInfo list \<Rightarrow> bool" where
  "nodeSteps ns infos infos' \<longleftrightarrow> list_all2 (nodeStep ns) infos infos'"

lemma nodeSteps_refl [simp]: "nodeSteps ns infos infos"
  by (simp add: nodeSteps_def list_all2_refl)

lemma nodeSteps_trans: "nodeSteps ns xs ys \<Longrightarrow> nodeSteps ns ys zs \<Longrightarrow> nodeSteps ns xs zs"
  unfolding nodeSteps_def by (rule list_all2_trans [OF nodeStep_trans])

lemma nodeSteps_mono: "nodeSteps ns xs ys \<Longrightarrow> ns \<subseteq> ns' \<Longrightarrow> nodeSteps ns' xs ys"
  unfolding nodeSteps_def by (rule list_all2_mono [OF _ nodeStep_mono])

lemma nodeSteps_arr: "nodeSteps ns xs ys \<Longrightarrow> map rci_arr ys = map rci_arr xs"
  unfolding nodeSteps_def by (induction rule: list_all2_induct) (auto dest: nodeStep_simps)

lemma nodeSteps_ids:
  assumes "nodeSteps ns xs ys"
  shows "claimIds ys = claimIds xs"
proof -
  have "map (\<lambda>c. (rci_Namespace c, rci_Name c)) ys = map (\<lambda>c. (rci_Namespace c, rci_Name c)) xs"
    using assms unfolding nodeSteps_def by (induction rule: list_all2_induct) (auto dest: nodeStep_simps)
  then show ?thesis unfolding claimIds_def by (metis list.set_map)
qed

lemma nodeSteps_wf:
  assumes "nodeSteps ns infos infos'" and "wf_infos infos"
  shows "wf_infos infos'"
proof -
  have "rci_Devices c' \<noteq> [] \<and> (\<forall>d\<in>set (rci_Devices c'). rcd_State d \<in> claimStates)"
    if "nodeStep ns c c'" "rci_Devices c \<noteq> [] \<and> (\<forall>d\<in>set (rci_Devices c). rcd_State d \<in> claimStates)" for c c'
    using that by (auto simp: nodeStep_def withState_def claimStates_def)
  with assms have "list_all (\<lambda>i. rci_Devices i \<noteq> [] \<and> (\<forall>d\<in>set (rci_Devices i). rcd_State d \<in> claimStates)) infos'"
    unfolding wf_infos_def nodeSteps_def list_all_length list_all2_conv_all_nth by metis
  with nodeSteps_arr [OF assms(1)] assms(2) show ?thesis by (simp add: wf_infos_def)
qed

text \<open>What the two passes make of the claims they are given.\<close>

definition derived :: "string set \<Rightarrow> ResourceClaimInfo list \<Rightarrow> ResourceClaimInfo list \<Rightarrow> bool" where
  "derived ns infos infos' \<longleftrightarrow> (\<forall>c'\<in>set infos'. \<exists>c\<in>set infos. nodeStep ns c c')"

lemma marks_derived:
  assumes "marks st p srt infos'" and "mset srt = mset infos" and "st = ''Failed'' \<or> st = ''Reschedule''"
    and "\<And>c. c \<in> set infos \<Longrightarrow> rci_NodeName c \<in> ns"
  shows "derived ns infos infos'"
  unfolding derived_def
proof
  fix c'
  assume "c' \<in> set infos'"
  then obtain i where "i < length srt" "c' = infos' ! i"
    using marks_length [OF assms(1)] by (metis in_set_conv_nth)
  with marks_nth [OF assms(1)] have "c' = srt ! i \<or> c' = withState st (srt ! i)" "srt ! i \<in> set srt"
    by auto
  moreover have "set srt = set infos" using assms(2) by (rule mset_eq_setD)
  ultimately show "\<exists>c\<in>set infos. nodeStep ns c c'" using assms(3,4) by (auto simp: nodeStep_def)
qed

lemma derived_trans: "derived ns xs ys \<Longrightarrow> derived ns ys zs \<Longrightarrow> derived ns xs zs"
  unfolding derived_def by (meson nodeStep_trans)

lemma derived_node:
  "derived ns xs ys \<Longrightarrow> (\<And>c. c \<in> set xs \<Longrightarrow> rci_NodeName c \<in> ns) \<Longrightarrow> c' \<in> set ys \<Longrightarrow> rci_NodeName c' \<in> ns"
  unfolding derived_def by (metis nodeStep_simps(4))

lemma derived_ids: "derived ns xs ys \<Longrightarrow> claimIds ys \<subseteq> claimIds xs"
  unfolding derived_def claimIds_def by (auto simp: image_iff) (metis nodeStep_simps(2,3))

text \<open>Writing the devices back keeps every claim that was not derived from.\<close>

lemma shareDevices_steps:
  assumes "distinct (map rci_arr infos)" and "derived ns (filter p infos) claims"
  shows "nodeSteps ns infos (shareDevices claims infos)"
proof -
  have "nodeStep ns c (case find (\<lambda>n. rci_arr n = rci_arr c) claims of None \<Rightarrow> c
      | Some n \<Rightarrow> c\<lparr>rci_Devices := rci_Devices n\<rparr>)" if c: "c \<in> set infos" for c
  proof (cases "find (\<lambda>n. rci_arr n = rci_arr c) claims")
    case (Some n)
    then have n: "n \<in> set claims" "rci_arr n = rci_arr c" by (auto simp: find_Some_iff)
    with assms(2) obtain c0 where c0: "c0 \<in> set infos" "nodeStep ns c0 n" by (auto simp: derived_def)
    have "c0 = c" using assms(1) c c0 n nodeStep_simps(1) [OF c0(2)] by (metis distinct_map inj_onD)
    with c0 Some nodeStep_simps(5) show ?thesis by auto
  qed simp
  then show ?thesis
    by (auto simp: nodeSteps_def shareDevices_def list_all2_conv_all_nth)
qed

lemma marks_arr: "marks st p xs ys \<Longrightarrow> map rci_arr ys = map rci_arr xs"
  unfolding marks_def by (induction rule: list_all2_induct) auto

text \<open>A pass over the claims of a node: each result is a claim of the node, possibly marked, and none is lost.\<close>

definition passed :: "string \<Rightarrow> ResourceClaimInfo list \<Rightarrow> ResourceClaimInfo list \<Rightarrow> bool" where
  "passed n zs zs' \<longleftrightarrow> derived {n} zs zs' \<and> rci_arr ` set zs' = rci_arr ` set zs"

lemma marks_passed:
  assumes "marks st p srt zs'" and "mset srt = mset zs" and "st = ''Failed'' \<or> st = ''Reschedule''"
    and "\<And>c. c \<in> set zs \<Longrightarrow> rci_NodeName c = n"
  shows "passed n zs zs'"
proof -
  have "rci_arr ` set zs' = rci_arr ` set srt" using marks_arr [OF assms(1)] by (metis list.set_map)
  also have "\<dots> = rci_arr ` set zs" using assms(2) by (metis mset_eq_setD)
  finally show ?thesis using marks_derived [OF assms(1-3), of "{n}"] assms(4) by (simp add: passed_def)
qed

lemma passed_node: "passed n zs zs' \<Longrightarrow> (\<And>c. c \<in> set zs \<Longrightarrow> rci_NodeName c = n) \<Longrightarrow> c \<in> set zs' \<Longrightarrow> rci_NodeName c = n"
  using derived_node [of "{n}" zs zs' c] by (auto simp: passed_def)

lemma passed_trans: "passed n xs ys \<Longrightarrow> passed n ys zs \<Longrightarrow> passed n xs zs"
  unfolding passed_def using derived_trans by metis

lemma does_failed_passed:
  assumes "\<And>c. c \<in> set zs \<Longrightarrow> rci_NodeName c = n"
  shows "does (\<lambda>_. True) (passed n zs) (RescheduleFailedNotification E node zs slices spec)"
  by (rule does_weaken [OF does_RescheduleFailedNotification]) (auto intro: marks_passed assms)

lemma does_notify_passed:
  assumes "\<And>c. c \<in> set zs \<Longrightarrow> rci_NodeName c = n"
  shows "does (\<lambda>_. True) (passed n zs) (RescheduleNotification E zs slices lp d)"
  by (rule does_weaken [OF does_RescheduleNotification]) (auto intro: marks_passed assms)

text \<open>
  The collected claims after a node's passes: its own claims are those that the passes have returned,
  found by their device arrays; the others are as before.
\<close>

lemma shareDevices_marks:
  assumes dist: "distinct (map rci_arr infos)" and pass: "passed n (filter p infos) claims"
  shows "list_all2 (\<lambda>c c'. if p c then c' \<in> set claims \<and> rci_arr c' = rci_arr c else c' = c)
    infos (shareDevices claims infos)"
proof -
  have mark: "if p c then c' \<in> set claims \<and> rci_arr c' = rci_arr c else c' = c"
    if c: "c \<in> set infos" and c': "c' = (case find (\<lambda>n. rci_arr n = rci_arr c) claims of
      None \<Rightarrow> c | Some n \<Rightarrow> c\<lparr>rci_Devices := rci_Devices n\<rparr>)" for c c'
  proof (cases "find (\<lambda>n. rci_arr n = rci_arr c) claims")
    case None
    then have "rci_arr c \<notin> rci_arr ` set claims" by (auto simp: find_None_iff image_iff)
    with pass have "rci_arr c \<notin> rci_arr ` set (filter p infos)" by (simp add: passed_def)
    with c c' None show ?thesis by auto
  next
    case (Some m)
    then have m: "m \<in> set claims" "rci_arr m = rci_arr c" by (auto simp: find_Some_iff)
    with pass obtain c0 where c0: "c0 \<in> set (filter p infos)" "nodeStep {n} c0 m" by (auto simp: passed_def derived_def)
    have "c0 = c" using dist c c0(1) m(2) nodeStep_simps(1) [OF c0(2)] by (auto simp: distinct_map inj_on_def)
    with c0(1) nodeStep_simps(5) [OF c0(2)] have "c\<lparr>rci_Devices := rci_Devices m\<rparr> = m" "p c" by simp_all
    with m show ?thesis by (simp add: c' Some)
  qed
  show ?thesis unfolding shareDevices_def list.rel_map(2) list_all2_same by (intro ballI mark refl)
qed

lemma shareDevices_set:
  assumes "distinct (map rci_arr infos)" and "passed n (filter p infos) claims"
  shows "set (shareDevices claims infos) \<subseteq> set claims \<union> set (filter (\<lambda>c. \<not> p c) infos)"
proof
  fix c'
  assume "c' \<in> set (shareDevices claims infos)"
  then obtain i where i: "i < length (shareDevices claims infos)" "c' = shareDevices claims infos ! i"
    by (metis in_set_conv_nth)
  then have "infos ! i \<in> set infos" by (simp add: shareDevices_def)
  with list_all2_nthD2 [OF shareDevices_marks [OF assms] i(1)] i(2)
  show "c' \<in> set claims \<union> set (filter (\<lambda>c. \<not> p c) infos)" by (auto split: if_splits)
qed

lemma shareDevices_arrs: "map rci_arr (shareDevices claims infos) = map rci_arr infos"
  by (auto simp: shareDevices_def split: option.split)

text \<open>A node's step, taken apart: the two passes, and what the collected claims are after it.\<close>

lemma handleNode_passes:
  assumes wf: "wf_infos infos" and run: "handleNode E r slices spec infos node s = (Ok infos', t)"
  shows "\<exists>claims1 s1 claims2 s2.
    RescheduleFailedNotification E node (filter (\<lambda>c. rci_NodeName c = ni_Name node) infos) slices spec s = (Ok claims1, s1) \<and>
    RescheduleNotification E claims1 slices (sp_LabelPrefix spec) (r_DeviceNoAllocation r) s1 = (Ok claims2, s2) \<and>
    list_all2 (\<lambda>c c'. if rci_NodeName c = ni_Name node then c' \<in> set claims2 \<and> rci_arr c' = rci_arr c else c' = c)
      infos infos'"
proof -
  let ?n = "ni_Name node" and ?zs = "filter (\<lambda>c. rci_NodeName c = ni_Name node) infos"
  from run obtain claims1 s1 claims2 s2 where
    passes: "RescheduleFailedNotification E node ?zs slices spec s = (Ok claims1, s1)"
      "RescheduleNotification E claims1 slices (sp_LabelPrefix spec) (r_DeviceNoAllocation r) s1 = (Ok claims2, s2)"
    and infos': "infos' = shareDevices claims2 infos"
    by (auto simp: handleNode_def andThen_Ok ret_def)
  have p1: "passed ?n ?zs claims1" by (rule doesD_value [OF does_failed_passed passes(1)]) simp
  have p2: "passed ?n claims1 claims2"
    by (rule doesD_value [OF does_notify_passed passes(2)]) (use passed_node [OF p1] in auto)
  from shareDevices_marks [OF _ passed_trans [OF p1 p2]] wf passes infos' show ?thesis
    by (auto simp: wf_infos_def)
qed

lemma does_handleNode:
  assumes wf: "wf_infos infos" and n: "ni_Name node \<in> ns"
  shows "does (safeEvent spec (claimIds infos) ns) (nodeSteps {ni_Name node} infos)
    (handleNode E r slices spec infos node)"
proof -
  let ?S = "safeEvent spec (claimIds infos) ns" and ?N = "{ni_Name node}"
  let ?claims = "filter (\<lambda>c. rci_NodeName c = ni_Name node) infos"
  have "does ?S (derived ?N ?claims) (RescheduleFailedNotification E node ?claims slices spec)"
    by (rule does_weaken [OF does_RescheduleFailedNotification])
      (erule failEvent_safe [OF _ claimIds_filter], auto intro: marks_derived)
  moreover have "does ?S (derived ?N ?claims) (RescheduleNotification E claims1 slices (sp_LabelPrefix spec) d)"
    if c1: "derived ?N ?claims claims1" for claims1 d
  proof (rule does_weaken [OF does_RescheduleNotification])
    have ids: "claimIds claims1 \<subseteq> claimIds infos"
      using derived_ids [OF c1] claimIds_filter by (meson order_trans)
    then show "notifyEvent (sp_LabelPrefix spec) (claimIds claims1) e \<Longrightarrow> ?S e" for e
      by (rule notifyEvent_safe [rotated])
    fix claims2
    assume "\<exists>sorted. mset sorted = mset claims1 \<and> (sorted = claims1 \<or> sortedBy ''Ascending'' sorted) \<and>
      marks ''Reschedule'' allPreparing sorted claims2"
    moreover have "rci_NodeName c \<in> ?N" if "c \<in> set claims1" for c
      using derived_node [OF c1 _ that] by auto
    ultimately have "derived ?N claims1 claims2" using marks_derived by blast
    with c1 show "derived ?N ?claims claims2" by (rule derived_trans)
  qed
  moreover have "emits ?S (handleDevices E r node claims2 slices spec)" for claims2
    by (rule does_weaken [OF does_handleDevices_calls]) (auto intro: deviceEvent_safe n)
  moreover have "nodeSteps ?N infos (shareDevices claims2 infos)" if "derived ?N ?claims claims2" for claims2
    using that wf by (intro shareDevices_steps) (auto simp: wf_infos_def)
  ultimately show ?thesis
    unfolding handleNode_def
    by (intro does_andThen [OF does_wrapErr] does_seq [OF does_wrapErr] emits_UpdateNodeLabel n does_ret)
qed

lemma does_handleNodes:
  assumes wf: "wf_infos infos"
  shows "does (safeEvent spec (claimIds infos) (ni_Name ` set nodes)) (nodeSteps (ni_Name ` set nodes) infos)
    (handleNodes E r nodes infos slices spec)"
  unfolding handleNodes_def
proof (rule does_foldM)
  fix b node
  assume node: "node \<in> set nodes" and b: "nodeSteps (ni_Name ` set nodes) infos b"
  have "does (safeEvent spec (claimIds b) (ni_Name ` set nodes)) (nodeSteps {ni_Name node} b)
      (handleNode E r slices spec b node)"
    using nodeSteps_wf [OF b wf] node by (intro does_handleNode) auto
  then have "does (safeEvent spec (claimIds infos) (ni_Name ` set nodes)) (nodeSteps {ni_Name node} b)
      (handleNode E r slices spec b node)"
    by (simp only: nodeSteps_ids [OF b])
  then show "does (safeEvent spec (claimIds infos) (ni_Name ` set nodes)) (nodeSteps (ni_Name ` set nodes) infos)
      (handleNode E r slices spec b node)"
  proof (rule does_weaken)
    fix c
    assume "nodeSteps {ni_Name node} b c"
    then have "nodeSteps (ni_Name ` set nodes) b c" by (rule nodeSteps_mono) (simp add: node)
    with b show "nodeSteps (ni_Name ` set nodes) infos c" by (rule nodeSteps_trans)
  qed
qed simp

lemma Reconcile_calls:
  assumes "Reconcile E r s = (res, t)"
  shows "\<exists>new. calls t = calls s @ new \<and>
    (new = [] \<or> (\<exists>claims slices nodes spec u.
       collectInfo E s = (Ok (claims, slices, nodes, spec), u) \<and> wf_spec spec \<and>
       list_all (safeEvent spec (claimIds claims) (ni_Name ` set nodes)) new))"
proof -
  obtain q u where col: "collectInfo E s = (q, u)" by fastforce
  have quiet: "calls u = calls s" using silent_calls [OF does_collectInfo col] .
  show ?thesis
  proof (cases q)
    case (Ok x)
    obtain claims slices nodes spec where x: "x = (claims, slices, nodes, spec)" by (cases x)
    have wf: "wf_infos claims" "wf_spec spec"
      using doesD_value [OF does_collectInfo col [unfolded Ok x]] by auto
    have "emits (safeEvent spec (claimIds claims) (ni_Name ` set nodes))
      (andThen (updateComposableResourceLastUsedTime E slices (sp_LabelPrefix spec)) (\<lambda>_.
       andThen (handleNodes E r nodes claims slices spec) (\<lambda>_. ret \<lparr>res_RequeueAfter = r_ScanInterval r\<rparr>)))"
      by (intro does_seq emits_updateLastUsed does_True [OF does_handleNodes [OF wf(1)]] does_ret) simp
    from doesD_calls [OF this, of u res t] assms col Ok x quiet wf(2) show ?thesis
      by (auto simp: Reconcile_def andThen_run(1) [of "collectInfo E", OF col [unfolded Ok x]])
  qed (use assms col quiet in \<open>auto simp: Reconcile_def andThen_def\<close>)
qed

section \<open>Properties\<close>

text \<open>
  Property C4. In every environment, whether it succeeds or not, \<open>Reconcile\<close> writes nothing unless it
  has collected its information, and then only what that information allows: labels of configured
  devices on collected nodes with the value \<open>"true"\<close> or a deletion, the last-used time of resources
  under the configured prefix, the two fabric conditions on collected claims, requests of positive
  size for configured models on collected nodes, and sizes that are not negative.
\<close>

theorem reconcile_writes_only_what_it_may:
  "\<exists>new. calls (snd (Reconcile E r s)) = calls s @ new \<and>
    (new = [] \<or> (\<exists>claims slices nodes spec u.
       collectInfo E s = (Ok (claims, slices, nodes, spec), u) \<and> wf_spec spec \<and>
       list_all (safeEvent spec (claimIds claims) (ni_Name ` set nodes)) new))"
  using Reconcile_calls [OF surjective_pairing] .

text \<open>
  Property C34. When collecting the information fails, \<open>Reconcile\<close> fails with that error and nothing
  has been written.
\<close>

theorem collection_failure_writes_nothing:
  assumes "collectInfo E s = (Fail e, u)"
  shows "Reconcile E r s = (Fail e, u) \<and> calls u = calls s"
  using assms silent_calls [OF does_collectInfo assms] by (simp add: Reconcile_def andThen_run(2))

theorem collection_failure_writes_nothing_witness:
  "calls (snd (Reconcile (memEnv sampleDevices) \<lparr>r_ScanInterval = 60, r_DeviceNoRemoval = 600, r_DeviceNoAllocation = 60\<rparr>
     \<lparr>wld = (sampleCluster [] [] [])\<lparr>cl_config := Map.empty\<rparr>, calls = []\<rparr>)) = []"
proof -
  let ?s = "\<lparr>wld = (sampleCluster [] [] [])\<lparr>cl_config := Map.empty\<rparr>, calls = []\<rparr> :: (cluster, api_call) st"
  have "fst (collectInfo (memEnv sampleDevices) ?s) =
      Fail (Wrap ''failed to get ComposableDRASpec from ConfigMap'' (Msg ''invalid label prefix: ''))"
    by code_simp
  from collection_failure_writes_nothing [OF run_eqI [OF this]] show ?thesis by simp
qed

text \<open>
  Property C5. Requests stay within the limits of the node. Against a snapshot, \<open>handleDevices\<close> creates
  a request only for a configured model without a request on the node, and resizes only the request
  for that model and node; the size is positive (not negative) and at least the minimum, and a size
  that grows is at most the maximum, or the minimum where that is larger.
\<close>

theorem device_requests_within_limits:
  assumes "snapshot_api E claimsOf resourcesOf requestsOf"
  shows "\<exists>new. calls (snd (handleDevices E r node infos slices spec s)) = calls s @ new \<and>
    list_all (\<lambda>e. \<exists>device\<in>set (sp_DeviceInfos spec). deviceEvent node (requestsOf (wld s)) device e) new"
  using snapshot_api.handleDevices_calls [OF assms surjective_pairing] .

theorem device_requests_within_limits_witness:
  "deviceEvent sampleNode [] (sampleDevice 1 ''A40'' ''a40'' [2]) (CreateRequest ''composability-'' ''gpu'' ''A40'' 1 ''n1'', True)"
proof -
  let ?m = "handleDevices (memEnv []) \<lparr>r_ScanInterval = 60, r_DeviceNoRemoval = 600, r_DeviceNoAllocation = 60\<rparr> sampleNode
    [] [sampleSliceInfo] sampleSpec"
  let ?s = "sampleState [] [sampleResource ''r0'' ''A40'' ''GPU-0''] []"
  have "calls (snd (?m ?s)) = [(CreateRequest ''composability-'' ''gpu'' ''A40'' 1 ''n1'', True)]" by code_simp
  moreover have "calls ?s = []" "cl_requests (wld ?s) = []" by (simp_all add: sampleState_def sampleCluster_def)
  ultimately show ?thesis
    using device_requests_within_limits [OF mem.snapshot_api_axioms, of "[]"
        "\<lparr>r_ScanInterval = 60, r_DeviceNoRemoval = 600, r_DeviceNoAllocation = 60\<rparr>" sampleNode "[]" "[sampleSliceInfo]"
        sampleSpec ?s]
    by (auto simp: sampleSpec_def sampleDevices_def deviceEvent_def Let_def sampleDevice_def)
qed

text \<open>
  Property C35. A count above the maximum of the node stops the node: \<open>handleDevice\<close> fails with both
  numbers and writes nothing.
\<close>

theorem count_above_maximum_fails:
  assumes "snapshot_api E claimsOf resourcesOf requestsOf"
    and "configuredCount (claimsOf (wld s)) (resourcesOf (wld s)) infos slices (di_CDIModelName device) (ni_Name node)
         > fst (GetModelLimit node (di_CDIModelName device))"
  shows "handleDevice E r node infos slices spec requests device s =
    (Fail (ExceedsMaxLimit
       (configuredCount (claimsOf (wld s)) (resourcesOf (wld s)) infos slices (di_CDIModelName device) (ni_Name node))
       (fst (GetModelLimit node (di_CDIModelName device)))), s)"
  unfolding handleDevice_def
    andThen_run(1) [OF wrapErr_run(1) [OF snapshot_api.GetConfiguredDeviceCount_run [OF assms(1)]]]
  using assms(2) by (auto simp: raise_def split: prod.split)

theorem count_above_maximum_fails_witness:
  "fst (handleDevice (memEnv []) \<lparr>r_ScanInterval = 60, r_DeviceNoRemoval = 600, r_DeviceNoAllocation = 60\<rparr> sampleNode
     [sampleInfo 0 ''c1'' 5 [''A40'', ''A40'', ''A40'']] [] sampleSpec [] (sampleDevice 1 ''A40'' ''a40'' [2])
     (sampleState [] [] [])) = Fail (ExceedsMaxLimit 3 2)"
proof -
  let ?s = "sampleState [] [] []" and ?d = "sampleDevice 1 ''A40'' ''a40'' [2]"
  have c: "configuredCount (cl_claims (wld ?s)) (cl_resources (wld ?s)) [sampleInfo 0 ''c1'' 5 [''A40'', ''A40'', ''A40'']] []
      (di_CDIModelName ?d) (ni_Name sampleNode) = 3" by code_simp
  have m: "fst (GetModelLimit sampleNode (di_CDIModelName ?d)) = 2" by code_simp
  have "configuredCount (cl_claims (wld ?s)) (cl_resources (wld ?s)) [sampleInfo 0 ''c1'' 5 [''A40'', ''A40'', ''A40'']] []
      (di_CDIModelName ?d) (ni_Name sampleNode) > fst (GetModelLimit sampleNode (di_CDIModelName ?d))"
    unfolding c m by simp
  from count_above_maximum_fails [OF mem.snapshot_api_axioms this] show ?thesis unfolding c m by simp
qed

text \<open>
  Property C13. Against a snapshot, \<open>updateComposableResourceLastUsedTime\<close> is the loop that stamps
  exactly the online resources whose device a pod uses, in the order of the list; the stamps do not
  disturb the test.
\<close>

theorem last_used_times_of_used_devices:
  assumes "quiet_api E claimsOf resourcesOf requestsOf"
  shows "updateComposableResourceLastUsedTime E slices labelPrefix s =
    foldM (\<lambda>_. stampResource E labelPrefix) ()
      (filter (\<lambda>r. cr_State r = ''Online'' \<and> usedByPod (claimsOf (wld s)) slices r) (resourcesOf (wld s))) s"
  by (rule quiet_api.updateComposableResourceLastUsedTime_run [OF assms])

theorem last_used_times_of_used_devices_witness:
  "map fst (calls (snd (updateComposableResourceLastUsedTime (memEnv []) [sampleSliceInfo] ''co.hdi''
     (sampleState [(sampleClaim ''c2'' 5 ''n1'')\<lparr>rc_Allocation := Some \<lparr>al_Results = [sampleAllocated ''n1'' ''gpu-0''],
         al_NodeSelector = None\<rparr>\<rparr>]
        [sampleResource ''r0'' ''A40'' ''GPU-0'', sampleResource ''r1'' ''A40'' ''GPU-1''] [])))) =
   [PatchAnnotation ''r0'' ''co.hdi/last-used-time'' ''1000'']"
  unfolding last_used_times_of_used_devices [OF mem.quiet_api_axioms] by code_simp

text \<open>
  Property C12. Treating the nodes touches only their own claims: for collected claims (each with a
  device array of its own), \<open>handleNodes\<close> leaves every claim of another node as it is, and a claim of a
  treated node unchanged or with all its devices in one of the states \<open>Failed\<close> and \<open>Reschedule\<close>. What
  the passes mark is not lost: after a node's turn, each of its collected claims is the claim with the
  same device array that the node's two passes have returned, although they work on copies.
\<close>

theorem nodes_touch_their_own_claims:
  assumes "wf_infos infos"
  shows "does (\<lambda>_. True) (\<lambda>infos'. list_all2 (\<lambda>c c'. c' = c \<or> rci_NodeName c \<in> ni_Name ` set nodes \<and>
      (c' = withState ''Failed'' c \<or> c' = withState ''Reschedule'' c)) infos infos')
    (handleNodes E r nodes infos slices spec) \<and>
   (handleNode E r slices spec infos node s = (Ok infos', t) \<longrightarrow>
     (\<exists>claims1 s1 claims2 s2.
       RescheduleFailedNotification E node (filter (\<lambda>c. rci_NodeName c = ni_Name node) infos) slices spec s =
         (Ok claims1, s1) \<and>
       RescheduleNotification E claims1 slices (sp_LabelPrefix spec) (r_DeviceNoAllocation r) s1 = (Ok claims2, s2) \<and>
       list_all2 (\<lambda>c c'. if rci_NodeName c = ni_Name node then c' \<in> set claims2 \<and> rci_arr c' = rci_arr c else c' = c)
         infos infos'))"
proof (intro conjI impI)
  show "does (\<lambda>_. True) (\<lambda>infos'. list_all2 (\<lambda>c c'. c' = c \<or> rci_NodeName c \<in> ni_Name ` set nodes \<and>
      (c' = withState ''Failed'' c \<or> c' = withState ''Reschedule'' c)) infos infos')
    (handleNodes E r nodes infos slices spec)"
    using does_handleNodes [OF assms] by (rule does_weaken) (simp_all add: nodeSteps_def nodeStep_def [abs_def])
qed (rule handleNode_passes [OF assms])

theorem nodes_touch_their_own_claims_witness:
  "\<exists>claims1 s1 claims2 s2.
     RescheduleFailedNotification (memEnv []) sampleNode [sampleInfo 0 ''c1'' 5 [''A40'']] [sampleSliceInfo] sampleSpec
       (sampleState [sampleClaim ''c1'' 5 ''a40-fabric1''] [sampleResource ''r0'' ''A40'' ''GPU-0''] []) = (Ok claims1, s1) \<and>
     RescheduleNotification (memEnv []) claims1 [sampleSliceInfo] (sp_LabelPrefix sampleSpec) 60 s1 = (Ok claims2, s2) \<and>
     withState ''Reschedule'' (sampleInfo 0 ''c1'' 5 [''A40'']) \<in> set claims2"
proof -
  let ?infos = "[sampleInfo 0 ''c1'' 5 [''A40''], (sampleInfo 1 ''c2'' 6 [''A40''])\<lparr>rci_NodeName := ''n2''\<rparr>]"
  let ?r = "\<lparr>r_ScanInterval = 60, r_DeviceNoRemoval = 600, r_DeviceNoAllocation = 60\<rparr>"
  let ?m = "handleNode (memEnv []) ?r [sampleSliceInfo] sampleSpec ?infos sampleNode"
  let ?s = "sampleState [sampleClaim ''c1'' 5 ''a40-fabric1''] [sampleResource ''r0'' ''A40'' ''GPU-0''] []"
  have wf: "wf_infos ?infos" by (simp add: wf_infos_def sampleInfo_def claimStates_def)
  have "fst (?m ?s) = Ok [withState ''Reschedule'' (sampleInfo 0 ''c1'' 5 [''A40'']),
      (sampleInfo 1 ''c2'' 6 [''A40''])\<lparr>rci_NodeName := ''n2''\<rparr>]" by code_simp
  note run = run_eqI [OF this]
  have own: "filter (\<lambda>c. rci_NodeName c = ni_Name sampleNode) ?infos = [sampleInfo 0 ''c1'' 5 [''A40'']]"
    "rci_NodeName (sampleInfo 0 ''c1'' 5 [''A40'']) = ni_Name sampleNode"
    by (simp_all add: sampleInfo_def sampleNode_def)
  from conjunct2 [OF nodes_touch_their_own_claims [OF wf], rule_format, OF run, unfolded own(1)] own(2)
  show ?thesis by auto
qed

text \<open>
  A minimum above the maximum: the count is raised after the maximum was checked, and the request
  exceeds the maximum.
\<close>

lemma minimum_above_maximum_requested:
  "(let node = \<lparr>ni_Name = ''n1'', ni_Models = [\<lparr>mc_Model = ''A40'', mc_DeviceName = ''a40'', mc_MaxDevice = 1,
                  mc_MinDevice = 3, mc_MaxDeviceSet = True\<rparr>]\<rparr>;
        r = \<lparr>r_ScanInterval = 60, r_DeviceNoRemoval = 600, r_DeviceNoAllocation = 60\<rparr>
    in calls (snd (handleDevices (memEnv []) r node [] [] sampleSpec (sampleState [] [] []))) =
         [(CreateRequest ''composability-'' ''gpu'' ''A40'' 3 ''n1'', True)])"
  by code_simp

end
