(* ===== verification/Setup.thy ===== *)
theory Setup
  imports Controller
begin

text \<open>
  \<open>src/cmd/main.go\<close>, and \<open>SetupWithManager\<close> of the controller: the settings and the start of the
  process. What controller-runtime does in the calls of \<open>main\<close> is a parameter.
\<close>

section \<open>Definitions\<close>

text \<open>An unset variable reads as the empty string; \<open>os.Getenv\<close> is the parameter \<open>getenv\<close>.\<close>

definition getEnvAsInt :: "(string \<Rightarrow> string) \<Rightarrow> string \<Rightarrow> int \<Rightarrow> int outcome" where
  "getEnvAsInt getenv name defaultValue =
     (let valueStr = getenv name
      in if valueStr = [] then Ok defaultValue
         else outcome_bind (outcome_wrap (''invalid integer value for '' @ name) (Atoi valueStr)) (\<lambda>val.
           if val < 0 \<or> val > 86400 then Fail (Msg (name @ '' must be between 0-86400'')) else Ok val))"

text \<open>\<open>time.Duration(n) * time.Second\<close>, a 64-bit product that wraps around.\<close>

definition wrap64 :: "int \<Rightarrow> int" where
  "wrap64 v = (v + 2 ^ 63) mod 2 ^ 64 - 2 ^ 63"

definition seconds :: "int \<Rightarrow> int" where
  "seconds n = wrap64 (n * 1000000000)"

text \<open>Lines 120 to 150 of \<open>main\<close>; an error ends the process with \<open>os.Exit(1)\<close>.\<close>

definition loadReconciler :: "(string \<Rightarrow> string) \<Rightarrow> ResourceMonitorReconciler outcome" where
  "loadReconciler getenv =
     outcome_bind (outcome_wrap ''invalid SCAN_INTERVAL''
       (getEnvAsInt getenv ''SCAN_INTERVAL'' 60)) (\<lambda>scanInterval.
     outcome_bind (outcome_wrap ''invalid DEVICE_NO_REMOVAL_DURATION''
       (getEnvAsInt getenv ''DEVICE_NO_REMOVAL_DURATION'' 600)) (\<lambda>deviceNoRemoval.
     outcome_bind (outcome_wrap ''invalid DEVICE_NO_ALLOCATION_DURATION''
       (getEnvAsInt getenv ''DEVICE_NO_ALLOCATION_DURATION'' 60)) (\<lambda>deviceNoAllocation.
     Ok \<lparr>r_ScanInterval = seconds scanInterval, r_DeviceNoRemoval = seconds deviceNoRemoval,
         r_DeviceNoAllocation = seconds deviceNoAllocation\<rparr>)))"

datatype log_level = DebugLevel | InfoLevel | ErrorLevel

definition logLevelOf :: "string \<Rightarrow> log_level" where
  "logLevelOf l =
     (if l = ''debug'' then DebugLevel else if l = ''info'' then InfoLevel
      else if l = ''error'' then ErrorLevel else InfoLevel)"

subsection \<open>The start of the process\<close>

text \<open>
  The calls of \<open>main\<close> into other packages that have an effect: the logger, the client configuration
  (\<open>ctrl.GetConfigOrDie\<close> ends the process when there is none), the manager with the time-out of the
  client, the address of the probes and leader election, the client set, the registration of a controller, the two
  checks, and the start of the manager, which returns when the process is told to stop.
\<close>

record manager_options =
  mo_Timeout :: int
  mo_HealthProbeBindAddress :: string
  mo_LeaderElection :: bool
  mo_LeaderElectionID :: string

record controller_builder =
  cb_Watches :: "string list"
  cb_Name :: string
  cb_Reconciler :: ResourceMonitorReconciler

datatype setup_call =
    SetLogger log_level
  | GetConfig
  | NewManager manager_options
  | NewForConfig
  | CompleteController controller_builder
  | AddHealthzCheck string
  | AddReadyzCheck string
  | StartManager

text \<open>
  The surroundings of the process: environment variables, the values of flags on the command line, and
  what the calls answer.
\<close>

record 'w process =
  p_getenv :: "string \<Rightarrow> string"
  p_stringFlag :: "string \<Rightarrow> string option"
  p_boolFlag :: "string \<Rightarrow> bool option"
  p_call :: "setup_call \<Rightarrow> 'w \<Rightarrow> string option \<times> 'w"

definition flagOr :: "'a option \<Rightarrow> 'a \<Rightarrow> 'a" where
  "flagOr given val = (case given of None \<Rightarrow> val | Some v \<Rightarrow> v)"

text \<open>\<open>SetupWithManager\<close>: the builder, and its completion.\<close>

definition SetupWithManager :: "'w process \<Rightarrow> ResourceMonitorReconciler \<Rightarrow> ('w, setup_call, string option) prog" where
  "SetupWithManager p r =
     writeOp (p_call p) (CompleteController
       \<lparr>cb_Watches = [''ResourceClaim'', ''ResourceSlice''], cb_Name = ''resourcemonitor'', cb_Reconciler = r\<rparr>)"

text \<open>\<open>if err != nil { setupLog.Error(err, msg); os.Exit(1) }\<close>\<close>

definition orExit :: "string \<Rightarrow> ('w, setup_call, string option) prog \<Rightarrow> ('w, setup_call, unit) prog" where
  "orExit msg m =
     andThen m (\<lambda>err. case err of None \<Rightarrow> ret () | Some e \<Rightarrow> raise (Wrap msg (ApiErr e)))"

definition timeoutDuration :: int where
  "timeoutDuration = seconds 30"

definition managerOptions :: "'w process \<Rightarrow> manager_options" where
  "managerOptions p =
     \<lparr>mo_Timeout = timeoutDuration,
      mo_HealthProbeBindAddress = flagOr (p_stringFlag p ''health-probe-bind-address'') '':8081'',
      mo_LeaderElection = flagOr (p_boolFlag p ''leader-elect'') False,
      mo_LeaderElectionID = ''2313b367.co.hdi''\<rparr>"

definition main :: "'w process \<Rightarrow> ('w, setup_call, unit) prog" where
  "main p =
     andThen (writeOp (p_call p)
       (SetLogger (logLevelOf (flagOr (p_stringFlag p ''log-level'') ''info'')))) (\<lambda>_.
     andThen (orExit ''unable to get kubeconfig'' (writeOp (p_call p) GetConfig)) (\<lambda>_.
     andThen (orExit ''unable to start manager'' (writeOp (p_call p) (NewManager (managerOptions p)))) (\<lambda>_.
     andThen (orExit ''unable to create clientSet'' (writeOp (p_call p) NewForConfig)) (\<lambda>_.
     andThen (lift (loadReconciler (p_getenv p))) (\<lambda>r.
     andThen (orExit ''unable to create controller'' (SetupWithManager p r)) (\<lambda>_.
     andThen (orExit ''unable to set up health check'' (writeOp (p_call p) (AddHealthzCheck ''healthz''))) (\<lambda>_.
     andThen (orExit ''unable to set up ready check'' (writeOp (p_call p) (AddReadyzCheck ''readyz''))) (\<lambda>_.
     orExit ''problem running manager'' (writeOp (p_call p) StartManager)))))))))"

text \<open>The exit status: \<open>os.Exit(1)\<close> after an error, 0 when \<open>main\<close> returns, 2 after a panic.\<close>

fun exitStatus :: "unit outcome \<Rightarrow> int" where
  "exitStatus (Ok _) = 0"
| "exitStatus (Fail _) = 1"
| "exitStatus (Panic _) = 2"

section \<open>Properties\<close>

lemma getEnvAsInt_Ok:
  assumes "getEnvAsInt getenv name d = Ok n"
  shows "(getenv name = [] \<and> n = d) \<or> (getenv name \<noteq> [] \<and> Atoi (getenv name) = Ok n \<and> 0 \<le> n \<and> n \<le> 86400)"
  using assms by (auto simp: getEnvAsInt_def Let_def split: if_splits)

lemma getEnvAsInt_no_Panic [simp]: "getEnvAsInt getenv name d \<noteq> Panic p"
  by (simp add: getEnvAsInt_def Let_def)

lemma seconds_exact: "0 \<le> n \<Longrightarrow> n \<le> 86400 \<Longrightarrow> seconds n = n * 1000000000"
  by (simp add: seconds_def wrap64_def)

text \<open>A setting: the default when the variable is not set, otherwise its value.\<close>

definition setting :: "(string \<Rightarrow> string) \<Rightarrow> string \<Rightarrow> int \<Rightarrow> int \<Rightarrow> bool" where
  "setting getenv name d n \<longleftrightarrow> (if getenv name = [] then n = d else Atoi (getenv name) = Ok n)"

text \<open>
  Property C38. Settings that \<open>main\<close> accepts are whole seconds between 0 and a day, either the value of
  the variable or its default, and their conversion to nanoseconds does not overflow.
\<close>

theorem settings_in_range:
  assumes "loadReconciler getenv = Ok r"
  shows "\<exists>scan removal allocation.
    setting getenv ''SCAN_INTERVAL'' 60 scan \<and> 0 \<le> scan \<and> scan \<le> 86400 \<and>
    r_ScanInterval r = scan * 1000000000 \<and>
    setting getenv ''DEVICE_NO_REMOVAL_DURATION'' 600 removal \<and> 0 \<le> removal \<and> removal \<le> 86400 \<and>
    r_DeviceNoRemoval r = removal * 1000000000 \<and>
    setting getenv ''DEVICE_NO_ALLOCATION_DURATION'' 60 allocation \<and> 0 \<le> allocation \<and> allocation \<le> 86400 \<and>
    r_DeviceNoAllocation r = allocation * 1000000000"
proof -
  from assms obtain a b c where abc: "getEnvAsInt getenv ''SCAN_INTERVAL'' 60 = Ok a"
    "getEnvAsInt getenv ''DEVICE_NO_REMOVAL_DURATION'' 600 = Ok b"
    "getEnvAsInt getenv ''DEVICE_NO_ALLOCATION_DURATION'' 60 = Ok c"
    and r: "r = \<lparr>r_ScanInterval = seconds a, r_DeviceNoRemoval = seconds b, r_DeviceNoAllocation = seconds c\<rparr>"
    by (auto simp: loadReconciler_def)
  have bounds: "setting getenv name d n \<and> 0 \<le> n \<and> n \<le> 86400 \<and> seconds n = n * 1000000000"
    if "getEnvAsInt getenv name d = Ok n" "0 \<le> d" "d \<le> 86400" for name d n
    using getEnvAsInt_Ok [OF that(1)] that(2,3) by (auto simp: setting_def intro: seconds_exact)
  from bounds [OF abc(1)] bounds [OF abc(2)] bounds [OF abc(3)] show ?thesis
    by (intro exI [of _ a] exI [of _ b] exI [of _ c]) (simp add: r)
qed

theorem settings_in_range_witness:
  "\<exists>scan. setting (\<lambda>v. if v = ''SCAN_INTERVAL'' then ''30'' else []) ''SCAN_INTERVAL'' 60 scan \<and>
     (30000000000 :: int) = scan * 1000000000"
proof -
  let ?env = "\<lambda>v. if v = ''SCAN_INTERVAL'' then ''30'' else []"
  have "loadReconciler ?env =
      Ok \<lparr>r_ScanInterval = 30000000000, r_DeviceNoRemoval = 600000000000, r_DeviceNoAllocation = 60000000000\<rparr>"
    by code_simp
  from settings_in_range [OF this] show ?thesis by auto
qed

text \<open>
  A setting that is not an integer between 0 and 86400 stops the process with an error.
\<close>

lemma settings_rejected:
  assumes "getenv name \<noteq> []" and "\<forall>n. Atoi (getenv name) = Ok n \<longrightarrow> n < 0 \<or> 86400 < n"
    and "name \<in> {''SCAN_INTERVAL'', ''DEVICE_NO_REMOVAL_DURATION'', ''DEVICE_NO_ALLOCATION_DURATION''}"
  shows "\<exists>e. loadReconciler getenv = Fail e"
proof (cases "loadReconciler getenv")
  case (Ok r)
  have "getEnvAsInt getenv name d \<noteq> Ok n" for d n
    using getEnvAsInt_Ok [of getenv name d n] assms(1,2) by force
  moreover from Ok obtain a b c where "getEnvAsInt getenv ''SCAN_INTERVAL'' 60 = Ok a"
    "getEnvAsInt getenv ''DEVICE_NO_REMOVAL_DURATION'' 600 = Ok b"
    "getEnvAsInt getenv ''DEVICE_NO_ALLOCATION_DURATION'' 60 = Ok c"
    by (auto simp: loadReconciler_def)
  ultimately show ?thesis using assms(3) by (metis empty_iff insertE)
next
  case (Panic p)
  then show ?thesis by (simp add: loadReconciler_def)
qed simp

section \<open>The start of the process\<close>

text \<open>
  \<open>follows complete plan m\<close>: the program makes the calls of the plan in order and stops after the first
  that is refused; it returns normally exactly when the plan is complete and every call was accepted, and
  never panics.
\<close>

definition follows :: "bool \<Rightarrow> setup_call list \<Rightarrow> ('w, setup_call, unit) prog \<Rightarrow> bool" where
  "follows complete plan m \<longleftrightarrow>
     (\<forall>s. \<exists>new. calls (snd (m s)) = calls s @ new \<and> map fst new = take (length new) plan \<and>
        list_all snd (butlast new) \<and> (\<forall>msg. fst (m s) \<noteq> Panic msg) \<and>
        (fst (m s) = Ok () \<longleftrightarrow> complete \<and> new = map (\<lambda>c. (c, True)) plan))"

lemma orExit_run:
  "orExit msg (writeOp f c) s =
     (case f c (wld s) of
        (None, w) \<Rightarrow> (Ok (), s\<lparr>wld := w, calls := calls s @ [(c, True)]\<rparr>)
      | (Some e, w) \<Rightarrow> (Fail (Wrap msg (ApiErr e)), s\<lparr>wld := w, calls := calls s @ [(c, False)]\<rparr>))"
  by (auto simp: orExit_def writeOp_def andThen_def ret_def raise_def split: prod.split option.split)

lemma follows_call:
  fixes f :: "setup_call \<Rightarrow> 'w \<Rightarrow> string option \<times> 'w"
  shows "follows True [c] (orExit msg (writeOp f c))"
  unfolding follows_def
proof
  fix s :: "('w, setup_call) st"
  obtain r w where "f c (wld s) = (r, w)" by fastforce
  then show "\<exists>new. calls (snd (orExit msg (writeOp f c) s)) = calls s @ new \<and> map fst new = take (length new) [c] \<and>
      list_all snd (butlast new) \<and> (\<forall>m. fst (orExit msg (writeOp f c) s) \<noteq> Panic m) \<and>
      (fst (orExit msg (writeOp f c) s) = Ok () \<longleftrightarrow> True \<and> new = map (\<lambda>c. (c, True)) [c])"
    by (intro exI [of _ "[(c, r = None)]"]) (simp add: orExit_run split: option.split)
qed

lemma follows_andThen:
  fixes g :: "setup_call \<Rightarrow> 'w \<Rightarrow> string option \<times> 'w"
  assumes rest: "follows complete plan (f ())"
  shows "follows complete (c # plan) (andThen (orExit msg (writeOp g c)) f)"
  unfolding follows_def
proof
  fix s :: "('w, setup_call) st"
  let ?m = "andThen (orExit msg (writeOp g c)) f"
  obtain r w where run: "g c (wld s) = (r, w)" by fastforce
  show "\<exists>new. calls (snd (?m s)) = calls s @ new \<and> map fst new = take (length new) (c # plan) \<and>
      list_all snd (butlast new) \<and> (\<forall>m. fst (?m s) \<noteq> Panic m) \<and>
      (fst (?m s) = Ok () \<longleftrightarrow> complete \<and> new = map (\<lambda>c. (c, True)) (c # plan))"
  proof (cases r)
    case None
    let ?t = "s\<lparr>wld := w, calls := calls s @ [(c, True)]\<rparr>"
    from rest obtain new where "calls (snd (f () ?t)) = calls ?t @ new" "map fst new = take (length new) plan"
      "list_all snd (butlast new)" "\<forall>m. fst (f () ?t) \<noteq> Panic m"
      "fst (f () ?t) = Ok () \<longleftrightarrow> complete \<and> new = map (\<lambda>c. (c, True)) plan"
      unfolding follows_def by blast
    with run None show ?thesis
      by (intro exI [of _ "(c, True) # new"]) (simp add: andThen_def orExit_run)
  next
    case (Some e)
    with run show ?thesis by (intro exI [of _ "[(c, False)]"]) (simp add: andThen_def orExit_run)
  qed
qed

lemma loadReconciler_no_Panic: "loadReconciler getenv \<noteq> Panic msg"
  by (simp add: loadReconciler_def)

text \<open>The calls after the logger, in order; with settings that are refused the plan ends before the controller.\<close>

definition setupPlan :: "'w process \<Rightarrow> setup_call list" where
  "setupPlan p =
     [GetConfig, NewManager (managerOptions p), NewForConfig] @
     (case loadReconciler (p_getenv p) of
        Ok r \<Rightarrow>
          [CompleteController \<lparr>cb_Watches = [''ResourceClaim'', ''ResourceSlice''], cb_Name = ''resourcemonitor'',
             cb_Reconciler = r\<rparr>,
           AddHealthzCheck ''healthz'', AddReadyzCheck ''readyz'', StartManager]
      | _ \<Rightarrow> [])"

definition settingsOk :: "'w process \<Rightarrow> bool" where
  "settingsOk p \<longleftrightarrow> (\<exists>r. loadReconciler (p_getenv p) = Ok r)"

lemma follows_settings:
  assumes "\<And>r. loadReconciler getenv = Ok r \<Longrightarrow> follows True plan (f r)"
    and "\<And>e. loadReconciler getenv = Fail e \<Longrightarrow> plan = []"
  shows "follows (\<exists>r. loadReconciler getenv = Ok r) plan (andThen (lift (loadReconciler getenv)) f)"
  using assms loadReconciler_no_Panic [of getenv]
  by (cases "loadReconciler getenv") (auto simp: follows_def andThen_def lift_def)

text \<open>
  Property C37. The process: \<open>main\<close> sets the logger and then makes its calls in the order of the plan,
  stopping at the first that is refused; the manager is started only after everything else was
  accepted, with the reconciler of the checked settings, and the process ends with status 0 exactly when
  the settings are accepted and all calls, the run of the manager included, succeed; otherwise with 1.
\<close>

theorem main_starts_only_what_is_set_up:
  "\<exists>ok new. calls (snd (main p s)) =
       calls s @ (SetLogger (logLevelOf (flagOr (p_stringFlag p ''log-level'') ''info'')), ok) # new \<and>
     map fst new = take (length new) (setupPlan p) \<and> list_all snd (butlast new) \<and>
     exitStatus (fst (main p s)) =
       (if settingsOk p \<and> new = map (\<lambda>c. (c, True)) (setupPlan p) then 0 else 1)"
proof -
  let ?log = "SetLogger (logLevelOf (flagOr (p_stringFlag p ''log-level'') ''info''))"
  obtain rest where main: "main p = andThen (writeOp (p_call p) ?log) (\<lambda>_. rest)"
    and rest: "follows (settingsOk p) (setupPlan p) rest"
    by (rule that [OF main_def], unfold setupPlan_def settingsOk_def SetupWithManager_def append_Cons append_Nil)
      (intro follows_andThen follows_settings, auto intro!: follows_andThen follows_call)
  obtain r w where run: "p_call p ?log (wld s) = (r, w)" by fastforce
  let ?t = "s\<lparr>wld := w, calls := calls s @ [(?log, r = None)]\<rparr>"
  have eq: "main p s = rest ?t" by (simp add: main andThen_def writeOp_def run)
  from rest obtain new where new: "calls (snd (rest ?t)) = calls ?t @ new" "map fst new = take (length new) (setupPlan p)"
      "list_all snd (butlast new)" "\<forall>m. fst (rest ?t) \<noteq> Panic m"
      "fst (rest ?t) = Ok () \<longleftrightarrow> settingsOk p \<and> new = map (\<lambda>c. (c, True)) (setupPlan p)"
    unfolding follows_def by blast
  then show ?thesis
    by (intro exI [of _ "r = None"] exI [of _ new]) (cases "fst (rest ?t)"; simp add: eq)
qed

end
