(* ===== verification/Run.thy ===== *)
theory Run
  imports Setup
begin

text \<open>
  The controller over time. A program's calls, replayed on the environment, give the world the program
  leaves (\<open>replays\<close>); on a server that does what it is asked (\<open>server_api\<close>) this turns what
  \<open>Controller\<close> shows of the calls of a reconciliation into what a reconciliation may change in the
  cluster, and into invariants of runs in which reconciliations and the other parties' changes
  alternate in any order.
\<close>

named_theorems replay_rules

section \<open>The world after a program\<close>

definition replay :: "'w env \<Rightarrow> event list \<Rightarrow> 'w \<Rightarrow> 'w" where
  "replay E es w = foldl (\<lambda>w e. snd (apply_call E (fst e) w)) w es"

definition replays :: "'w env \<Rightarrow> ('w, 'a) io \<Rightarrow> bool" where
  "replays E m \<longleftrightarrow>
     (\<forall>s. \<exists>new. calls (snd (m s)) = calls s @ new \<and> wld (snd (m s)) = replay E new (wld s))"

lemma replay_append [simp]: "replay E (es @ es') w = replay E es' (replay E es w)"
  by (simp add: replay_def)

lemma replay_Nil [simp]: "replay E [] w = w"
  by (simp add: replay_def)

lemma replays_still: "(\<And>s. snd (m s) = s) \<Longrightarrow> replays E m"
  unfolding replays_def by (metis append_Nil2 replay_Nil)

lemma replays_ret [replay_rules]: "replays E (ret x)"
  by (rule replays_still) (simp add: ret_def)

lemma replays_raise [replay_rules]: "replays E (raise e)"
  by (rule replays_still) (simp add: raise_def)

lemma replays_lift [replay_rules]: "replays E (lift r)"
  by (rule replays_still) (simp add: lift_def)

lemma replays_andThen [replay_rules]:
  fixes m :: "('w, 'a) io"
  assumes m: "replays E m" and f: "\<And>x. replays E (f x)"
  shows "replays E (andThen m f)"
  unfolding replays_def
proof
  fix s :: "('w, api_call) st"
  obtain r t where run: "m s = (r, t)" by fastforce
  from m run obtain n1 where n1: "calls t = calls s @ n1" "wld t = replay E n1 (wld s)"
    unfolding replays_def by (metis snd_conv)
  show "\<exists>new. calls (snd (andThen m f s)) = calls s @ new \<and> wld (snd (andThen m f s)) = replay E new (wld s)"
  proof (cases r)
    case (Ok x)
    from f [of x] obtain n2 where "calls (snd (f x t)) = calls t @ n2" "wld (snd (f x t)) = replay E n2 (wld t)"
      unfolding replays_def by blast
    with n1 run Ok show ?thesis by (intro exI [of _ "n1 @ n2"]) (simp add: andThen_def)
  qed (use n1 run in \<open>auto simp: andThen_def\<close>)
qed

lemma replays_wrapErr [replay_rules]: "replays E m \<Longrightarrow> replays E (wrapErr msg m)"
  by (simp add: replays_def wrapErr_def split_beta)

lemma replays_if [replay_rules]: "replays E m \<Longrightarrow> replays E n \<Longrightarrow> replays E (if b then m else n)"
  by simp

lemma replays_case_option [replay_rules]:
  "replays E m \<Longrightarrow> (\<And>y. replays E (f y)) \<Longrightarrow> replays E (case x of None \<Rightarrow> m | Some y \<Rightarrow> f y)"
  by (cases x) auto

lemma replays_case_prod [replay_rules]:
  "(\<And>a b. replays E (f a b)) \<Longrightarrow> replays E (case x of (a, b) \<Rightarrow> f a b)"
  by (cases x) auto

lemma replays_Let [replay_rules]: "(\<And>x. replays E (f x)) \<Longrightarrow> replays E (let x = t in f x)"
  by simp

lemma replays_foldM [replay_rules]: "(\<And>a x. replays E (f a x)) \<Longrightarrow> replays E (foldM f a xs)"
  by (induction xs arbitrary: a) (auto intro!: replay_rules)

lemma replays_issue [replay_rules]:
  fixes E :: "'w env"
  shows "replays E (issue E c)"
  unfolding replays_def
proof
  fix s :: "('w, api_call) st"
  obtain r w where "apply_call E c (wld s) = (r, w)" by fastforce
  then show "\<exists>new. calls (snd (issue E c s)) = calls s @ new \<and> wld (snd (issue E c s)) = replay E new (wld s)"
    by (intro exI [of _ "[(c, r = None)]"]) (simp add: issue_def writeOp_def replay_def)
qed

lemma replays_readOp:
  assumes "\<And>w. snd (f w) = w"
  shows "replays E (readOp f)"
proof (rule replays_still)
  fix s :: "('a, api_call) st"
  obtain r w where "f (wld s) = (r, w)" by fastforce
  with assms [of "wld s"] show "snd (readOp f s) = s" by (cases r) (simp_all add: readOp_def)
qed

lemma replays_peekOp: "(\<And>w. snd (f w) = w) \<Longrightarrow> replays E (peekOp f)"
  by (rule replays_still) (simp add: peekOp_def split_beta)

lemma replays_retryLoop [replay_rules]: "replays E attempt \<Longrightarrow> replays E (retryLoop n attempt lastErr)"
  by (induction n arbitrary: lastErr) (auto intro!: replay_rules)

lemma replays_patchOnce [replay_rules]: "replays E (patchOnce E msg c)"
  unfolding patchOnce_def by (intro replay_rules)

text \<open>A program that issues no call leaves the world as it is.\<close>

lemma silent_still:
  assumes "replays E m" and "does (\<lambda>_. False) Q m" and "m s = (r, t)"
  shows "wld t = wld s"
  using assms silent_calls [OF assms(2,3)] unfolding replays_def by (metis append_self_conv replay_Nil snd_conv)

section \<open>Reads that change nothing\<close>

locale reading_api =
  fixes E :: "'w env"
  assumes reads_only:
    "snd (listComposabilityRequests E w) = w" "snd (listComposableResources E w) = w"
    "snd (listResourceSlices E w) = w" "snd (listResourceClaims E w) = w" "snd (listNodes E w) = w"
    "snd (getConfigMap E ns n w) = w" "snd (getComposableResource E n w) = w"
    "snd (getComposabilityRequest E n w) = w" "snd (getResourceClaim E ns n w) = w"
    "snd (clock E w) = w" "snd (choice E w) = w"
begin

lemma replays_reads [replay_rules]:
  "replays E (readOp (listComposabilityRequests E))" "replays E (readOp (listComposableResources E))"
  "replays E (readOp (listResourceSlices E))" "replays E (readOp (listResourceClaims E))"
  "replays E (readOp (listNodes E))" "replays E (readOp (getConfigMap E ns n))"
  "replays E (readOp (getComposableResource E n))" "replays E (readOp (getComposabilityRequest E n))"
  "replays E (readOp (getResourceClaim E ns n))" "replays E (now E)" "replays E (rangeOrder E xs)"
  unfolding now_def rangeOrder_def
  by (intro replays_readOp replays_peekOp replays_andThen replays_ret reads_only)+

lemma replays_patches [replay_rules]:
  "replays E (patchNodeLabel E n add del)" "replays E (PatchComposableResourceAnnotation E n k v)"
  "replays E (PatchComposabilityRequestSize E n cnt)"
  unfolding patchNodeLabel_def PatchComposableResourceAnnotation_def annotationAttempt_def
    PatchComposabilityRequestSize_def sizeAttempt_def
  by (intro replay_rules)+

lemma replays_updateDevices [replay_rules]: "replays E (updateDevices E ty ds)"
  by (induction ds) (auto intro!: replay_rules)

lemma replays_conditions [replay_rules]: "replays E (PatchResourceClaimDeviceConditions E n ns ty)"
  unfolding PatchResourceClaimDeviceConditions_def conditionsAttempt_def by (intro replay_rules)

lemma replays_IsDeviceUsedByPod [replay_rules]: "replays E (IsDeviceUsedByPod E d slice)"
  unfolding IsDeviceUsedByPod_def by (intro replay_rules)

lemma replays_isLastUsedOverThreshold [replay_rules]: "replays E (isLastUsedOverThreshold E r lp d b)"
  unfolding isLastUsedOverThreshold_def by (auto intro!: replay_rules split: option.split sum.split)

lemma replays_isOvertime [replay_rules]: "replays E (isOvertime E r lp d)"
proof -
  have "snd (isOvertime E r lp d s) = snd (isLastUsedOverThreshold E r lp d False s)" for s
    by (simp add: isOvertime_def split: prod.split outcome.split)
  with replays_isLastUsedOverThreshold [of r lp d False] show ?thesis by (simp add: replays_def)
qed

lemma replays_counts [replay_rules]:
  "replays E (GetConfiguredDeviceCount E model n infos slices)" "replays E (getNextSize E cnt n lp d)"
  unfolding GetConfiguredDeviceCount_def getPodAllocatedDevicesCount_def getNextSize_def
  by (intro replay_rules)+

lemma replays_attach_detach [replay_rules]:
  "replays E (DynamicAttach E cr cnt ty model n)" "replays E (DynamicDetach E q cnt n lp d)"
  unfolding DynamicAttach_def createNewComposabilityRequestCR_def DynamicDetach_def
  by (intro replay_rules)+

lemma replays_sortByTime [replay_rules]: "replays E (sortByTime E infos order)"
  unfolding sortByTime_def by (intro replay_rules replays_peekOp reads_only)

lemma replays_setDevicesState [replay_rules]:
  "replays E (setDevicesState E rc st ty)" "replays E (failClaim E infos k rc)"
  unfolding failClaim_def setDevicesState_def by (intro replay_rules)+

lemma replays_failedDevices [replay_rules]:
  "replays E (failedDevices E spec requests resources k rc infos i devs)"
  by (induction devs arbitrary: infos i) (auto intro!: replay_rules simp: failedDevice_def)

lemma replays_failed_pass [replay_rules]: "replays E (RescheduleFailedNotification E node infos slices spec)"
  unfolding RescheduleFailedNotification_def failedClaim_def limitStep_def by (intro replay_rules)

lemma replays_candidate [replay_rules]: "replays E (candidate E slices lp d rc model matched r)"
  unfolding candidate_def by (intro replay_rules)

lemma replays_matchModel [replay_rules]: "replays E (matchModel E slices lp d rc model cnt matched k rs)"
  by (induction rs arbitrary: matched k) (auto intro!: replay_rules)

lemma replays_matchModels [replay_rules]: "replays E (matchModels E slices lp d rc rs matched models)"
  by (induction models arbitrary: matched) (auto intro!: replay_rules)

lemma replays_reschedule_pass [replay_rules]: "replays E (RescheduleNotification E infos slices lp d)"
  unfolding RescheduleNotification_def notifyClaim_def annotateMatched_def by (intro replay_rules)

lemma replays_node [replay_rules]:
  "replays E (handleDevices E r node infos slices spec)" "replays E (UpdateNodeLabel E node spec)"
  unfolding handleDevices_def handleDevice_def UpdateNodeLabel_def by (intro replay_rules)+

lemma replays_collect [replay_rules]: "replays E (collectInfo E)"
  unfolding collectInfo_def GetConfigMapInfo_def GetResourceClaimInfo_def GetResourceSliceInfo_def GetNodeInfo_def
  by (intro replay_rules)

lemma replays_handleNodes [replay_rules]: "replays E (handleNodes E r nodes infos slices spec)"
  unfolding handleNodes_def handleNode_def by (intro replay_rules)

lemma replays_Reconcile: "replays E (Reconcile E r)"
  unfolding Reconcile_def updateComposableResourceLastUsedTime_def touchResource_def by (intro replay_rules)

end

section \<open>A server that does what it is asked\<close>

text \<open>
  The effect of a call that the API server accepts, on the objects it stores; the server chooses the
  name of a new request. A call that it rejects has no effect.
\<close>

fun callEffect :: "api_call \<Rightarrow> cluster \<Rightarrow> cluster \<Rightarrow> bool" where
  "callEffect (CreateRequest g ty m sz n) w w' \<longleftrightarrow>
     (\<exists>name. w' = w\<lparr>cl_requests := cl_requests w @
        [\<lparr>req_Name = name, req_Type = ty, req_Model = m, req_Size = sz, req_TargetNode = n\<rparr>]\<rparr>)"
| "callEffect c w w' \<longleftrightarrow> w' = snd (memApply c w)"

locale server_api = reading_api E for E :: "'w env" +
  fixes view :: "'w \<Rightarrow> cluster"
  assumes accepted: "apply_call E c w = (None, w') \<Longrightarrow> callEffect c (view w) (view w')"
    and rejected: "apply_call E c w = (Some e, w') \<Longrightarrow> view w' = view w"
begin

lemma replay_invariant:
  assumes "list_all P es" and "I (view w)"
    and "\<And>c ok a b. P (c, ok) \<Longrightarrow> callEffect c a b \<Longrightarrow> I a \<Longrightarrow> I b"
  shows "I (view (replay E es w))"
  using assms(1,2)
proof (induction es arbitrary: w)
  case (Cons e es)
  obtain c ok where e: "e = (c, ok)" by (cases e)
  obtain r w' where step: "apply_call E c w = (r, w')" by fastforce
  have "I (view w')"
  proof (cases r)
    case None
    with step accepted have "callEffect c (view w) (view w')" by blast
    with Cons.prems assms(3) show ?thesis by (auto simp: e)
  next
    case (Some x)
    with step rejected have "view w' = view w" by blast
    with Cons.prems show ?thesis by simp
  qed
  with Cons show ?case by (simp add: replay_def e step)
qed simp

end

interpretation mem_reading: reading_api "memEnv infos" for infos
  by unfold_locales simp_all

interpretation mem_server: server_api "memEnv infos" "\<lambda>w. w" for infos
proof unfold_locales
  fix c w w'
  assume "apply_call (memEnv infos) c w = (None, w')"
  then show "callEffect c w w'" by (cases c) auto
next
  fix c w e w'
  assume "apply_call (memEnv infos) c w = (Some e, w')"
  then show "w' = w" by (cases c) auto
qed

section \<open>What a reconciliation changes in the cluster\<close>

text \<open>
  The frame of a reconciliation with a configuration, a set of claims and a set of nodes: of the
  claims, only the status of the given ones; of the resources, only the last-used time; of the nodes,
  only the labels of configured devices; of the requests, only sizes, and new requests for configured
  models on the given nodes. Everything else is as before.
\<close>

definition claimFrame :: "(string \<times> string) set \<Rightarrow> ResourceClaim \<Rightarrow> ResourceClaim \<Rightarrow> bool" where
  "claimFrame ids c c' \<longleftrightarrow> c' = c\<lparr>rc_Devices := rc_Devices c'\<rparr> \<and> (c' = c \<or> (rc_Namespace c, rc_Name c) \<in> ids)"

definition resourceFrame :: "ComposableDRASpec \<Rightarrow> ComposableResource \<Rightarrow> ComposableResource \<Rightarrow> bool" where
  "resourceFrame spec r r' \<longleftrightarrow>
     r' = r\<lparr>cr_Annotations := cr_Annotations r'\<rparr> \<and>
     (\<forall>k. k \<noteq> sp_LabelPrefix spec @ ''/last-used-time'' \<longrightarrow> cr_Annotations r' k = cr_Annotations r k)"

definition nodeFrame :: "ComposableDRASpec \<Rightarrow> string set \<Rightarrow> Node \<Rightarrow> Node \<Rightarrow> bool" where
  "nodeFrame spec ns x x' \<longleftrightarrow>
     node_Name x' = node_Name x \<and> (x' = x \<or> node_Name x \<in> ns) \<and>
     (\<forall>k. k \<notin> labelOf spec ` set (sp_DeviceInfos spec) \<longrightarrow> map_of (node_Labels x') k = map_of (node_Labels x) k)"

definition resized :: "ComposabilityRequest \<Rightarrow> ComposabilityRequest \<Rightarrow> bool" where
  "resized q q' \<longleftrightarrow> q' = q\<lparr>req_Size := req_Size q'\<rparr>"

definition requestsFrame ::
    "ComposableDRASpec \<Rightarrow> string set \<Rightarrow> ComposabilityRequest list \<Rightarrow> ComposabilityRequest list \<Rightarrow> bool" where
  "requestsFrame spec ns qs qs' \<longleftrightarrow>
     list_all2 resized qs (take (length qs) qs') \<and>
     (\<forall>q\<in>set (drop (length qs) qs'). req_TargetNode q \<in> ns \<and> req_Model q \<in> di_CDIModelName ` set (sp_DeviceInfos spec))"

definition clusterFrame ::
    "ComposableDRASpec \<Rightarrow> (string \<times> string) set \<Rightarrow> string set \<Rightarrow> cluster \<Rightarrow> cluster \<Rightarrow> bool" where
  "clusterFrame spec ids ns w w' \<longleftrightarrow>
     list_all2 (claimFrame ids) (cl_claims w) (cl_claims w') \<and>
     list_all2 (resourceFrame spec) (cl_resources w) (cl_resources w') \<and>
     list_all2 (nodeFrame spec ns) (cl_nodes w) (cl_nodes w') \<and>
     requestsFrame spec ns (cl_requests w) (cl_requests w') \<and>
     cl_slices w' = cl_slices w \<and> cl_config w' = cl_config w \<and> cl_time w' = cl_time w \<and> cl_order w' = cl_order w"

lemma list_all2_changeBy:
  "(\<And>x. R x x) \<Longrightarrow> (\<And>x. p x \<Longrightarrow> R x (f x)) \<Longrightarrow> list_all2 R xs (changeBy p f xs)"
  by (simp add: changeBy_def list_all2_conv_all_nth)

lemma frame_refls [simp]:
  "claimFrame ids c c" "resourceFrame spec r r" "nodeFrame spec ns x x" "requestsFrame spec ns qs qs"
  by (simp_all add: claimFrame_def resourceFrame_def nodeFrame_def requestsFrame_def resized_def list_all2_refl)

lemma clusterFrame_refl: "clusterFrame spec ids ns w w"
  by (simp add: clusterFrame_def list_all2_refl)

lemma claimFrame_trans: "claimFrame ids a b \<Longrightarrow> claimFrame ids b c \<Longrightarrow> claimFrame ids a c"
  by (cases a; cases b; cases c) (auto simp: claimFrame_def)

lemma resourceFrame_trans: "resourceFrame spec a b \<Longrightarrow> resourceFrame spec b c \<Longrightarrow> resourceFrame spec a c"
  by (cases a; cases b; cases c) (auto simp: resourceFrame_def)

lemma nodeFrame_trans: "nodeFrame spec ns a b \<Longrightarrow> nodeFrame spec ns b c \<Longrightarrow> nodeFrame spec ns a c"
  by (auto simp: nodeFrame_def)

text \<open>Requests: a resized prefix and new requests at the end.\<close>

lemma requestsFrame_iff:
  "requestsFrame spec ns qs qs' \<longleftrightarrow>
     (\<exists>old new. qs' = old @ new \<and> list_all2 resized qs old \<and>
        (\<forall>q\<in>set new. req_TargetNode q \<in> ns \<and> req_Model q \<in> di_CDIModelName ` set (sp_DeviceInfos spec)))"
proof
  assume "requestsFrame spec ns qs qs'"
  then show "\<exists>old new. qs' = old @ new \<and> list_all2 resized qs old \<and>
        (\<forall>q\<in>set new. req_TargetNode q \<in> ns \<and> req_Model q \<in> di_CDIModelName ` set (sp_DeviceInfos spec))"
    by (intro exI [of _ "take (length qs) qs'"] exI [of _ "drop (length qs) qs'"]) (simp add: requestsFrame_def)
next
  assume "\<exists>old new. qs' = old @ new \<and> list_all2 resized qs old \<and>
        (\<forall>q\<in>set new. req_TargetNode q \<in> ns \<and> req_Model q \<in> di_CDIModelName ` set (sp_DeviceInfos spec))"
  then obtain old new where on: "qs' = old @ new" "list_all2 resized qs old"
      "\<forall>q\<in>set new. req_TargetNode q \<in> ns \<and> req_Model q \<in> di_CDIModelName ` set (sp_DeviceInfos spec)" by blast
  moreover have "length old = length qs" using on(2) by (simp add: list_all2_lengthD)
  ultimately show "requestsFrame spec ns qs qs'" by (simp add: requestsFrame_def)
qed

lemma resized_trans: "resized a b \<Longrightarrow> resized b c \<Longrightarrow> resized a c"
  by (cases a; cases b; cases c) (auto simp: resized_def)

lemma requestsFrame_trans:
  assumes "requestsFrame spec ns a b" and "requestsFrame spec ns b c"
  shows "requestsFrame spec ns a c"
proof -
  let ?ok = "\<lambda>q. req_TargetNode q \<in> ns \<and> req_Model q \<in> di_CDIModelName ` set (sp_DeviceInfos spec)"
  from assms(1) obtain o1 n1 where 1: "b = o1 @ n1" "list_all2 resized a o1" "\<forall>q\<in>set n1. ?ok q"
    unfolding requestsFrame_iff by blast
  from assms(2) obtain o2 n2 where 2: "c = o2 @ n2" "list_all2 resized b o2" "\<forall>q\<in>set n2. ?ok q"
    unfolding requestsFrame_iff by blast
  from 1(1) 2(2) obtain p r where pr: "o2 = p @ r" "list_all2 resized o1 p" "list_all2 resized n1 r"
    by (auto simp: list_all2_append1)
  have "list_all2 resized a p"
    by (rule list_all2_trans [of resized resized resized, OF resized_trans 1(2) pr(2)])
  moreover have "\<forall>q\<in>set r. ?ok q"
  proof
    fix q'
    assume "q' \<in> set r"
    with pr(3) obtain q where q: "q \<in> set n1" "resized q q'"
      by (metis in_set_conv_nth list_all2_conv_all_nth)
    from q(2) have "req_TargetNode q' = req_TargetNode q" "req_Model q' = req_Model q"
      by (cases q; cases q'; simp add: resized_def)+
    with 1(3) q(1) show "?ok q'" by auto
  qed
  ultimately show ?thesis
    unfolding requestsFrame_iff using 2 pr by (intro exI [of _ p] exI [of _ "r @ n2"]) auto
qed

lemma clusterFrame_trans:
  "clusterFrame spec ids ns a b \<Longrightarrow> clusterFrame spec ids ns b c \<Longrightarrow> clusterFrame spec ids ns a c"
  unfolding clusterFrame_def
  by (auto intro: list_all2_trans [OF claimFrame_trans] list_all2_trans [OF resourceFrame_trans]
      list_all2_trans [OF nodeFrame_trans] requestsFrame_trans)

lemma map_of_patchLabels_other:
  assumes "k \<notin> fst ` set p"
  shows "map_of (patchLabels p ls) k = map_of ls k"
proof -
  have none: "map_of p k = None" using assms by (simp add: map_of_eq_None_iff)
  have kept: "map_of (filter (\<lambda>(k, v). map_of p k = None) ls) k = map_of ls k"
    by (induction ls) (auto simp: none)
  have "map_of (concat (map (\<lambda>(k, ov). case ov of None \<Rightarrow> [] | Some v \<Rightarrow> [(k, v)]) p)) k = None"
    using assms by (induction p) (auto split: option.splits)
  with kept show ?thesis unfolding patchLabels_def map_of_append map_add_def by (simp split: option.split)
qed

lemma safe_call_frame:
  assumes "safeEvent spec ids ns (c, ok)" and "callEffect c w w'"
  shows "clusterFrame spec ids ns w w'"
proof (cases c)
  case (PatchNodeLabels n p)
  with assms(1) have n: "n \<in> ns" and p: "\<And>k. k \<notin> labelOf spec ` set (sp_DeviceInfos spec) \<Longrightarrow> k \<notin> fst ` set p"
    by (auto simp: safeEvent_def)
  have "list_all2 (nodeFrame spec ns) (cl_nodes w)
      (changeBy (\<lambda>x. node_Name x = n) (\<lambda>x. x\<lparr>node_Labels := patchLabels p (node_Labels x)\<rparr>) (cl_nodes w))"
    by (rule list_all2_changeBy) (use n p in \<open>simp_all add: nodeFrame_def map_of_patchLabels_other\<close>)
  with assms(2) show ?thesis by (simp add: PatchNodeLabels clusterFrame_def list_all2_refl)
next
  case (PatchAnnotation n k v)
  with assms(1) have "list_all2 (resourceFrame spec) (cl_resources w)
      (changeBy (\<lambda>x. cr_Name x = n) (\<lambda>x. x\<lparr>cr_Annotations := (cr_Annotations x)(k \<mapsto> v)\<rparr>) (cl_resources w))"
    by (intro list_all2_changeBy) (auto simp: resourceFrame_def safeEvent_def)
  with assms(2) show ?thesis by (simp add: PatchAnnotation clusterFrame_def list_all2_refl)
next
  case (PatchRequestSize n sz)
  have "list_all2 resized (cl_requests w) (changeBy (\<lambda>x. req_Name x = n) (\<lambda>x. x\<lparr>req_Size := sz\<rparr>) (cl_requests w))"
    by (rule list_all2_changeBy) (simp_all add: resized_def)
  then have "requestsFrame spec ns (cl_requests w)
      (changeBy (\<lambda>x. req_Name x = n) (\<lambda>x. x\<lparr>req_Size := sz\<rparr>) (cl_requests w))"
    unfolding requestsFrame_iff by (intro exI [of _ "changeBy _ _ _"] exI [of _ "[]"]) simp
  with assms(2) show ?thesis by (simp add: PatchRequestSize clusterFrame_def list_all2_refl)
next
  case (PatchClaimStatus ns' n ds)
  with assms(1) have "list_all2 (claimFrame ids) (cl_claims w)
      (changeBy (\<lambda>x. rc_Name x = n \<and> rc_Namespace x = ns') (\<lambda>x. x\<lparr>rc_Devices := ds\<rparr>) (cl_claims w))"
    by (intro list_all2_changeBy) (auto simp: claimFrame_def safeEvent_def)
  with assms(2) show ?thesis by (simp add: PatchClaimStatus clusterFrame_def list_all2_refl)
next
  case (CreateRequest g ty m cnt n)
  with assms show ?thesis
    by (auto simp: clusterFrame_def list_all2_refl requestsFrame_def resized_def safeEvent_def)
qed

text \<open>No request asks for a negative number of devices.\<close>

definition sizesOk :: "cluster \<Rightarrow> bool" where
  "sizesOk w \<longleftrightarrow> list_all (\<lambda>q. 0 \<le> req_Size q) (cl_requests w)"

lemma safe_call_sizes:
  "safeEvent spec ids ns (c, ok) \<Longrightarrow> callEffect c w w' \<Longrightarrow> sizesOk w \<Longrightarrow> sizesOk w'"
  by (cases c) (auto simp: sizesOk_def safeEvent_def changeBy_def list_all_iff)

context server_api
begin

text \<open>The calls of a reconciliation, and the world they lead to.\<close>

lemma Reconcile_replay:
  assumes "Reconcile E r s = (res, t)"
  shows "wld t = wld s \<or> (\<exists>claims slices nodes spec u es.
    collectInfo E s = (Ok (claims, slices, nodes, spec), u) \<and> wf_spec spec \<and>
    list_all (safeEvent spec (claimIds claims) (ni_Name ` set nodes)) es \<and> wld t = replay E es (wld s))"
proof -
  obtain es where es: "calls t = calls s @ es" "wld t = replay E es (wld s)"
    using replays_Reconcile [of r] assms unfolding replays_def by (metis snd_conv)
  from Reconcile_calls [OF assms] es show ?thesis by auto
qed

lemma safe_replay_frame:
  assumes "list_all (safeEvent spec ids ns) es"
  shows "clusterFrame spec ids ns (view w) (view (replay E es w))"
  using assms clusterFrame_refl by (rule replay_invariant) (blast intro: clusterFrame_trans safe_call_frame)

lemma Reconcile_frame:
  assumes "Reconcile E r s = (res, t)"
  shows "view (wld t) = view (wld s) \<or> (\<exists>claims slices nodes spec u.
    collectInfo E s = (Ok (claims, slices, nodes, spec), u) \<and>
    clusterFrame spec (claimIds claims) (ni_Name ` set nodes) (view (wld s)) (view (wld t)))"
  using Reconcile_replay [OF assms] safe_replay_frame by metis

lemma safe_replay_sizes:
  assumes "list_all (safeEvent spec ids ns) es" and "sizesOk (view w)"
  shows "sizesOk (view (replay E es w))"
  using assms by (rule replay_invariant) (rule safe_call_sizes)

lemma Reconcile_sizes:
  assumes "Reconcile E r s = (res, t)" and "sizesOk (view (wld s))"
  shows "sizesOk (view (wld t))"
  using Reconcile_replay [OF assms(1)] assms(2)
  by (auto intro: safe_replay_sizes)

end

section \<open>Runs\<close>

text \<open>
  The life of a cluster: the controller reconciles, and in between users, the scheduler and the
  composable resource operator change the cluster in the ways that \<open>other\<close> allows. A reconciliation
  that fails leaves the writes it has made.
\<close>

inductive clusterStep ::
    "'w env \<Rightarrow> ResourceMonitorReconciler \<Rightarrow> ('w \<Rightarrow> 'w \<Rightarrow> bool) \<Rightarrow> 'w \<Rightarrow> 'w \<Rightarrow> bool"
  for E r other where
    reconcile: "Reconcile E r \<lparr>wld = w, calls = []\<rparr> = (res, t) \<Longrightarrow> clusterStep E r other w (wld t)"
  | elsewhere: "other w w' \<Longrightarrow> clusterStep E r other w w'"

inductive_cases clusterStepE: "clusterStep E r other w w'"

abbreviation reaches ::
    "'w env \<Rightarrow> ResourceMonitorReconciler \<Rightarrow> ('w \<Rightarrow> 'w \<Rightarrow> bool) \<Rightarrow> 'w \<Rightarrow> 'w \<Rightarrow> bool" where
  "reaches E r other \<equiv> (clusterStep E r other)\<^sup>*\<^sup>*"

lemma invariant_reaches:
  assumes "reaches E r other w w'" and "I w"
    and "\<And>w w'. other w w' \<Longrightarrow> I w \<Longrightarrow> I w'"
    and "\<And>w res t. Reconcile E r \<lparr>wld = w, calls = []\<rparr> = (res, t) \<Longrightarrow> I w \<Longrightarrow> I (wld t)"
  shows "I w'"
  using assms(1,2)
proof (induction rule: rtranclp_induct)
  case (step y z)
  then have y: "I y" by simp
  from step.hyps(2) show ?case
  proof (rule clusterStepE)
    fix res t
    assume "z = wld t" "Reconcile E r \<lparr>wld = y, calls = []\<rparr> = (res, t)"
    with assms(4) y show ?thesis by blast
  next
    assume "other y z"
    then show ?thesis using assms(3) y by blast
  qed
qed simp

section \<open>Properties\<close>

text \<open>
  Property C6. The world after a reconciliation: on a server that applies the calls it accepts, a
  reconciliation, successful or not, changes nothing but the status of collected claims, the
  last-used time of resources, the labels of configured devices on collected nodes and the sizes of
  requests, and adds requests only for configured models on collected nodes.
\<close>

theorem reconcile_changes_only_its_part:
  assumes "server_api E view" and "Reconcile E r s = (res, t)"
  shows "view (wld t) = view (wld s) \<or> (\<exists>claims slices nodes spec u.
    collectInfo E s = (Ok (claims, slices, nodes, spec), u) \<and>
    clusterFrame spec (claimIds claims) (ni_Name ` set nodes) (view (wld s)) (view (wld t)))"
  using assms by (rule server_api.Reconcile_frame)

theorem reconcile_changes_only_its_part_witness:
  "(let s = sampleState [sampleClaim ''c1'' 5 ''a40-fabric1''] [sampleResource ''r0'' ''A40'' ''GPU-0''] [];
        t = snd (Reconcile (memEnv sampleDevices)
              \<lparr>r_ScanInterval = 60, r_DeviceNoRemoval = 600, r_DeviceNoAllocation = 60\<rparr> s)
    in cl_slices (wld t) = cl_slices (wld s) \<and> length (cl_claims (wld t)) = 1)"
proof -
  let ?r = "\<lparr>r_ScanInterval = 60, r_DeviceNoRemoval = 600, r_DeviceNoAllocation = 60\<rparr>"
  let ?s = "sampleState [sampleClaim ''c1'' 5 ''a40-fabric1''] [sampleResource ''r0'' ''A40'' ''GPU-0''] []"
  have one: "length (cl_claims (wld ?s)) = 1" by (simp add: sampleState_def sampleCluster_def)
  show ?thesis
    using reconcile_changes_only_its_part
      [OF mem_server.server_api_axioms surjective_pairing, of sampleDevices ?r ?s] one
    by (auto simp: Let_def clusterFrame_def dest!: list_all2_lengthD)
qed

text \<open>
  Property C36. On a server whose reads change nothing and which does what it accepts, when no request has a
  negative size at the start and every change of other parties keeps it so, no request has a negative
  size in any state that an interleaving of reconciliations and such changes reaches.
\<close>

theorem request_sizes_never_negative:
  assumes "server_api E view" and "reaches E r other w w'" and "sizesOk (view w)"
    and "\<And>w w'. other w w' \<Longrightarrow> sizesOk (view w) \<Longrightarrow> sizesOk (view w')"
  shows "sizesOk (view w')"
  using assms(2,3)
  by (rule invariant_reaches [where I = "\<lambda>w. sizesOk (view w)"])
    (auto intro: assms(4) server_api.Reconcile_sizes [OF assms(1)])

theorem request_sizes_never_negative_witness:
  "sizesOk (wld (snd (Reconcile (memEnv sampleDevices)
     \<lparr>r_ScanInterval = 60, r_DeviceNoRemoval = 600, r_DeviceNoAllocation = 60\<rparr>
     (sampleState [sampleClaim ''c1'' 5 ''a40-fabric1''] [sampleResource ''r0'' ''A40'' ''GPU-0''] []))))"
proof -
  let ?r = "\<lparr>r_ScanInterval = 60, r_DeviceNoRemoval = 600, r_DeviceNoAllocation = 60\<rparr>"
  let ?w = "sampleCluster [sampleClaim ''c1'' 5 ''a40-fabric1''] [sampleResource ''r0'' ''A40'' ''GPU-0''] []"
  let ?other = "\<lambda>w w'. cl_requests w' = cl_requests w"
  have "reaches (memEnv sampleDevices) ?r ?other ?w
      (wld (snd (Reconcile (memEnv sampleDevices) ?r \<lparr>wld = ?w, calls = []\<rparr>)))"
    by (rule r_into_rtranclp) (rule clusterStep.reconcile [OF surjective_pairing])
  moreover have "sizesOk ?w" by (simp add: sizesOk_def sampleCluster_def)
  ultimately have "sizesOk (wld (snd (Reconcile (memEnv sampleDevices) ?r \<lparr>wld = ?w, calls = []\<rparr>)))"
    by (rule request_sizes_never_negative [OF mem_server.server_api_axioms]) (simp add: sizesOk_def)
  then show ?thesis by (simp add: sampleState_def)
qed

end
