(* ===== verification/Progress.thy ===== *)
theory Progress
  imports Run
begin

text \<open>
  The controller makes progress: on a server that answers every read and accepts every call, a
  reconciliation whose collection succeeds does not fail and does not panic, except for a node on which
  more devices are configured than its maximum allows. \<open>ends V X Q m\<close> is the triple for it: from
  a world that satisfies \<open>V\<close> the program keeps \<open>V\<close>, never panics, and returns a value that satisfies
  \<open>Q\<close> or an error whose cause satisfies \<open>X\<close>; the rules are collected in \<open>ends_rules\<close>.
\<close>

named_theorems ends_rules

section \<open>Programs that end well\<close>

text \<open>The error at the root of wrapped errors.\<close>

fun cause :: "error \<Rightarrow> error" where
  "cause (Wrap msg e) = cause e"
| "cause e = e"

definition ends :: "('w \<Rightarrow> bool) \<Rightarrow> (error \<Rightarrow> bool) \<Rightarrow> ('a \<Rightarrow> bool) \<Rightarrow> ('w, 'c, 'a) prog \<Rightarrow> bool" where
  "ends V X Q m \<longleftrightarrow>
     (\<forall>s. V (wld s) \<longrightarrow> V (wld (snd (m s))) \<and>
        (case fst (m s) of Ok x \<Rightarrow> Q x | Fail e \<Rightarrow> X (cause e) | Panic p \<Rightarrow> False))"

abbreviation finishes :: "('w \<Rightarrow> bool) \<Rightarrow> (error \<Rightarrow> bool) \<Rightarrow> ('w, 'c, 'a) prog \<Rightarrow> bool" where
  "finishes V X m \<equiv> ends V X (\<lambda>_. True) m"

lemma endsD:
  "ends V X Q m \<Longrightarrow> V (wld s) \<Longrightarrow> m s = (r, t) \<Longrightarrow>
     V (wld t) \<and> (case r of Ok x \<Rightarrow> Q x | Fail e \<Rightarrow> X (cause e) | Panic p \<Rightarrow> False)"
  unfolding ends_def by (metis fst_conv snd_conv)

lemma ends_weaken: "ends V X Q m \<Longrightarrow> (\<And>x. Q x \<Longrightarrow> Q' x) \<Longrightarrow> ends V X Q' m"
  unfolding ends_def by (auto split: outcome.split)

lemma ends_ret [ends_rules]: "Q x \<Longrightarrow> ends V X Q (ret x)"
  by (simp add: ends_def ret_def)

lemma ends_raise: "X (cause e) \<Longrightarrow> ends V X Q (raise e)"
  by (simp add: ends_def raise_def)

lemma ends_andThen:
  fixes m :: "('w, 'c, 'a) prog"
  assumes m: "ends V X R m" and f: "\<And>x. R x \<Longrightarrow> ends V X Q (f x)"
  shows "ends V X Q (andThen m f)"
  unfolding ends_def
proof (intro allI impI)
  fix s :: "('w, 'c) st"
  assume s: "V (wld s)"
  obtain r t where run: "m s = (r, t)" by fastforce
  from endsD [OF m s run] show "V (wld (snd (andThen m f s))) \<and>
      (case fst (andThen m f s) of Ok x \<Rightarrow> Q x | Fail e \<Rightarrow> X (cause e) | Panic p \<Rightarrow> False)"
    using f run by (cases r) (auto simp: andThen_def ends_def)
qed

lemma ends_seq [ends_rules]: "finishes V X m \<Longrightarrow> (\<And>x. ends V X Q (f x)) \<Longrightarrow> ends V X Q (andThen m f)"
  by (rule ends_andThen)

lemma cause_wrap [simp]:
  "(case outcome_wrap msg r of Ok x \<Rightarrow> Q x | Fail e \<Rightarrow> X (cause e) | Panic p \<Rightarrow> False) \<longleftrightarrow>
   (case r of Ok x \<Rightarrow> Q x | Fail e \<Rightarrow> X (cause e) | Panic p \<Rightarrow> False)"
  by (cases r) simp_all

lemma ends_wrapErr [ends_rules]: "ends V X Q m \<Longrightarrow> ends V X Q (wrapErr msg m)"
  by (simp add: ends_def wrapErr_def split_beta)

lemma ends_if [ends_rules]:
  "(b \<Longrightarrow> ends V X Q m) \<Longrightarrow> (\<not> b \<Longrightarrow> ends V X Q n) \<Longrightarrow> ends V X Q (if b then m else n)"
  by simp

lemma ends_case_option [ends_rules]:
  "(x = None \<Longrightarrow> ends V X Q m) \<Longrightarrow> (\<And>y. x = Some y \<Longrightarrow> ends V X Q (f y)) \<Longrightarrow>
   ends V X Q (case x of None \<Rightarrow> m | Some y \<Rightarrow> f y)"
  by (cases x) auto

lemma ends_case_prod [ends_rules]:
  "(\<And>a b. x = (a, b) \<Longrightarrow> ends V X Q (f a b)) \<Longrightarrow> ends V X Q (case x of (a, b) \<Rightarrow> f a b)"
  by (cases x) auto

lemma ends_foldM:
  assumes "I a" and "\<And>a x. x \<in> set xs \<Longrightarrow> I a \<Longrightarrow> ends V X I (f a x)"
  shows "ends V X I (foldM f a xs)"
  using assms
proof (induction xs arbitrary: a)
  case (Cons x xs)
  then show ?case by (auto intro!: ends_andThen [where R = I])
qed (simp add: ends_ret)

lemma finishes_foldM [ends_rules]:
  "(\<And>a x. x \<in> set xs \<Longrightarrow> finishes V X (f a x)) \<Longrightarrow> finishes V X (foldM f a xs)"
  by (rule ends_foldM) auto

lemma readOp_Inr: "f (wld s) = (Inr x, wld s) \<Longrightarrow> readOp f s = (Ok x, s)"
  by (simp add: readOp_def)

lemma ends_readOp:
  assumes "\<And>w. V w \<Longrightarrow> \<exists>x. f w = (Inr x, w) \<and> Q x"
  shows "ends V X Q (readOp f)"
  unfolding ends_def
proof (intro allI impI)
  fix s :: "('a, 'c) st"
  assume s: "V (wld s)"
  from assms [OF s] obtain x where "f (wld s) = (Inr x, wld s)" "Q x" by blast
  with s show "V (wld (snd (readOp f s))) \<and>
      (case fst (readOp f s) of Ok x \<Rightarrow> Q x | Fail e \<Rightarrow> X (cause e) | Panic p \<Rightarrow> False)"
    by (simp add: readOp_Inr)
qed

lemma ends_peekOp: "(\<And>w. V w \<Longrightarrow> snd (f w) = w \<and> Q (fst (f w))) \<Longrightarrow> ends V X Q (peekOp f)"
  by (auto simp: ends_def peekOp_def split_beta)

text \<open>What is read is known of the world from there on.\<close>

lemma ends_read_known:
  fixes g :: "'x \<Rightarrow> ('w, 'c, 'b) prog"
  assumes read: "\<And>w. V w \<Longrightarrow> \<exists>x. f w = (Inr x, w) \<and> K x w"
    and rest: "\<And>x. ends (\<lambda>w. V w \<and> K x w) X Q (g x)"
  shows "ends V X Q (andThen (wrapErr msg (readOp f)) g)"
  unfolding ends_def
proof (intro allI impI)
  fix s :: "('w, 'c) st"
  assume s: "V (wld s)"
  from read [OF s] obtain x where x: "f (wld s) = (Inr x, wld s)" "K x (wld s)" by blast
  then have "andThen (wrapErr msg (readOp f)) g s = g x s" by (simp add: andThen_def wrapErr_def readOp_Inr)
  with rest [of x] s x(2) show "V (wld (snd (andThen (wrapErr msg (readOp f)) g s))) \<and>
      (case fst (andThen (wrapErr msg (readOp f)) g s) of Ok x \<Rightarrow> Q x | Fail e \<Rightarrow> X (cause e) | Panic p \<Rightarrow> False)"
    by (simp add: ends_def)
qed

lemma ends_retryLoop:
  "ends V X (\<lambda>r. r = None) attempt \<Longrightarrow> finishes V X (retryLoop maxRetries attempt e)"
  by (auto simp: maxRetries_def numeral_2_eq_2 intro!: ends_andThen ends_ret)

section \<open>A server that answers and accepts\<close>

locale willing_api = server_api E view
  for E :: "'w env" and view :: "'w \<Rightarrow> cluster" +
  assumes lists:
    "listComposabilityRequests E w = (Inr (cl_requests (view w)), w)"
    "listComposableResources E w = (Inr (cl_resources (view w)), w)"
    "listResourceClaims E w = (Inr (cl_claims (view w)), w)"
    "listResourceSlices E w = (Inr (cl_slices (view w)), w)"
    and get_claim: "c \<in> set (cl_claims (view w)) \<Longrightarrow>
      \<exists>c'. getResourceClaim E (rc_Namespace c) (rc_Name c) w = (Inr c', w)"
    and get_resource: "r \<in> set (cl_resources (view w)) \<Longrightarrow>
      \<exists>r'. getComposableResource E (cr_Name r) w = (Inr r', w)"
    and get_request: "q \<in> set (cl_requests (view w)) \<Longrightarrow>
      \<exists>q'. getComposabilityRequest E (req_Name q) w = (Inr q', w)"
    and accepts: "fst (apply_call E a w) = None"
    and clock_parses: "\<exists>u. parseRFC3339 E (formatRFC3339 E (fst (clock E w))) = Inr u"

sublocale willing_api \<subseteq> snapshot_api E "\<lambda>w. cl_claims (view w)" "\<lambda>w. cl_resources (view w)" "\<lambda>w. cl_requests (view w)"
  by unfold_locales (rule lists)+

lemma lookupBy_found: "x \<in> set xs \<Longrightarrow> p x \<Longrightarrow> \<exists>y. lookupBy p xs = Inr y"
  by (auto simp: lookupBy_def find_None_iff split: option.split)

interpretation mem_willing: willing_api "memEnv infos" "\<lambda>w. w" for infos
proof unfold_locales
  show "fst (apply_call (memEnv infos) c w) = None" for c w by (cases c) simp_all
qed (auto intro: lookupBy_found parseStamp_showInt)

text \<open>
  What a reconciliation needs of the cluster while it runs: the claims it works on exist, the resources
  it has listed exist, every resource has a readable last-used time or a creation time, and the
  requests it has listed exist.
\<close>

definition stamped :: "'w env \<Rightarrow> string \<Rightarrow> ComposableResource \<Rightarrow> bool" where
  "stamped E key r \<longleftrightarrow>
     (case cr_Annotations r key of
        None \<Rightarrow> \<not> IsZero (cr_CreationTimestamp r)
      | Some v \<Rightarrow> (\<exists>u. parseRFC3339 E v = Inr u))"

definition ready ::
    "'w env \<Rightarrow> string \<Rightarrow> (string \<times> string) set \<Rightarrow> string set \<Rightarrow> string set \<Rightarrow> cluster \<Rightarrow> bool" where
  "ready E key ids names qs w \<longleftrightarrow>
     ids \<subseteq> (\<lambda>c. (rc_Namespace c, rc_Name c)) ` set (cl_claims w) \<and>
     names = cr_Name ` set (cl_resources w) \<and> list_all (stamped E key) (cl_resources w) \<and>
     qs \<subseteq> req_Name ` set (cl_requests w)"

definition timely :: "'w env \<Rightarrow> api_call \<Rightarrow> bool" where
  "timely E c \<longleftrightarrow> (\<forall>n k v. c = PatchAnnotation n k v \<longrightarrow> (\<exists>u. parseRFC3339 E v = Inr u))"

lemma image_changeBy:
  assumes "\<And>x. g (f x) = g x"
  shows "g ` set (changeBy p f xs) = g ` set xs"
proof -
  have "map g (changeBy p f xs) = map g xs" by (simp add: changeBy_def assms)
  then show ?thesis by (metis list.set_map)
qed

lemma stamped_annotation:
  "stamped E key r \<Longrightarrow> parseRFC3339 E v = Inr u \<Longrightarrow> stamped E key (r\<lparr>cr_Annotations := (cr_Annotations r)(k \<mapsto> v)\<rparr>)"
  by (auto simp: stamped_def split: option.splits)

lemma ready_call:
  assumes "callEffect c w w'" and "timely E c" and "ready E key ids names qs w"
  shows "ready E key ids names qs w'"
proof (cases c)
  case (PatchAnnotation n k v)
  have "list_all (stamped E key)
      (changeBy (\<lambda>x. cr_Name x = n) (\<lambda>x. x\<lparr>cr_Annotations := (cr_Annotations x)(k \<mapsto> v)\<rparr>) (cl_resources w))"
    using assms(2,3)
    by (auto simp: PatchAnnotation changeBy_def list_all_iff timely_def ready_def intro: stamped_annotation)
  with assms show ?thesis by (simp add: PatchAnnotation ready_def image_changeBy)
qed (use assms in \<open>auto simp: ready_def image_changeBy\<close>)

text \<open>The one cause of failure that is left: a configured count above the maximum.\<close>

definition overLimit :: "error \<Rightarrow> bool" where
  "overLimit e \<longleftrightarrow> (\<exists>cnt mx. e = ExceedsMaxLimit cnt mx \<and> mx < cnt)"

context willing_api
begin

abbreviation good :: "string \<Rightarrow> (string \<times> string) set \<Rightarrow> string set \<Rightarrow> string set \<Rightarrow> 'w \<Rightarrow> bool" where
  "good key ids names qs w \<equiv> ready E key ids names qs (view w)"

lemma ends_issue:
  assumes "timely E c"
  shows "ends (good key ids names qs) X (\<lambda>r. r = None) (issue E c)"
  unfolding ends_def
proof (intro allI impI)
  fix s :: "('w, api_call) st"
  assume s: "good key ids names qs (wld s)"
  obtain w where w: "apply_call E c (wld s) = (None, w)" using accepts [of c "wld s"] by (metis prod.collapse)
  with accepted have "callEffect c (view (wld s)) (view w)" by blast
  with assms s have "good key ids names qs w" by (blast intro: ready_call)
  with w show "good key ids names qs (wld (snd (issue E c s))) \<and>
      (case fst (issue E c s) of Ok x \<Rightarrow> x = None | Fail e \<Rightarrow> X (cause e) | Panic p \<Rightarrow> False)"
    by (simp add: issue_def writeOp_def)
qed

lemma ends_patchOnce:
  "timely E c \<Longrightarrow> ends (good key ids names qs) X (\<lambda>r. r = None) (patchOnce E msg c)"
  unfolding patchOnce_def by (rule ends_andThen [OF ends_issue]) (auto intro: ends_ret)

lemma ends_peeks [ends_rules]:
  "finishes V X (peekOp (choice E))"
  "ends V X (\<lambda>t. \<exists>u. parseRFC3339 E (formatRFC3339 E t) = Inr u) (now E)"
  unfolding now_def by (rule ends_peekOp, simp add: reads_only clock_parses)+

lemma finishes_now [ends_rules]: "finishes V X (now E)"
  by (rule ends_weaken [OF ends_peeks(2)]) simp

lemma ends_rangeOrder: "ends V X (\<lambda>ys. set ys = set xs) (rangeOrder E xs)"
  unfolding rangeOrder_def by (intro ends_rules) simp

lemma finishes_rangeOrder [ends_rules]: "finishes V X (rangeOrder E xs)"
  by (rule ends_weaken [OF ends_rangeOrder]) simp

lemma ends_lists [ends_rules]:
  "finishes V X (readOp (listComposabilityRequests E))" "finishes V X (readOp (listComposableResources E))"
  "finishes V X (readOp (listResourceClaims E))" "finishes V X (readOp (listResourceSlices E))"
  by (rule ends_readOp, simp add: lists)+

lemma ends_resources:
  "ends (good key ids names qs) X (list_all (\<lambda>r. cr_Name r \<in> names \<and> stamped E key r))
     (readOp (listComposableResources E))"
  by (rule ends_readOp) (auto simp: lists ready_def list_all_iff)

subsection \<open>Patches\<close>

lemma finishes_patchNodeLabel [ends_rules]: "finishes (good key ids names qs) X (patchNodeLabel E n add del)"
  unfolding patchNodeLabel_def by (intro ends_retryLoop ends_patchOnce) (simp add: timely_def)

lemma finishes_annotation:
  assumes "n \<in> names" and "\<exists>u. parseRFC3339 E v = Inr u"
  shows "finishes (good key ids names qs) X (PatchComposableResourceAnnotation E n k v)"
proof -
  have "finishes (good key ids names qs) X (readOp (getComposableResource E n))"
    using assms(1) get_resource by (intro ends_readOp) (auto simp: ready_def)
  then show ?thesis
    unfolding PatchComposableResourceAnnotation_def annotationAttempt_def
    by (intro ends_retryLoop ends_seq ends_wrapErr ends_if ends_ret ends_patchOnce)
      (use assms(2) in \<open>auto simp: timely_def\<close>)
qed

lemma finishes_size:
  assumes "n \<in> qs"
  shows "finishes (good key ids names qs) X (PatchComposabilityRequestSize E n cnt)"
proof -
  have "finishes (good key ids names qs) X (readOp (getComposabilityRequest E n))"
    using assms get_request by (intro ends_readOp) (force simp: ready_def)
  then show ?thesis
    unfolding PatchComposabilityRequestSize_def sizeAttempt_def
    by (intro ends_retryLoop ends_seq ends_wrapErr ends_patchOnce) (simp_all add: timely_def)
qed

lemma finishes_updateDevices [ends_rules]: "finishes V X (updateDevices E ty ds)"
  by (induction ds) (auto intro!: ends_rules)

lemma finishes_conditions:
  assumes "(ns, n) \<in> ids"
  shows "finishes (good key ids names qs) X (PatchResourceClaimDeviceConditions E n ns ty)"
proof -
  have "finishes (good key ids names qs) X (readOp (getResourceClaim E ns n))"
    using assms get_claim by (intro ends_readOp) (force simp: ready_def)
  then show ?thesis
    unfolding PatchResourceClaimDeviceConditions_def conditionsAttempt_def
    by (intro ends_retryLoop ends_seq ends_wrapErr ends_if ends_ret ends_patchOnce finishes_updateDevices)
      (simp_all add: timely_def)
qed

subsection \<open>Counting, attaching and detaching\<close>

lemma finishes_IsDeviceUsedByPod [ends_rules]: "finishes V X (IsDeviceUsedByPod E d slice)"
  unfolding IsDeviceUsedByPod_def by (intro ends_rules) simp_all

lemma finishes_configured [ends_rules]: "finishes V X (GetConfiguredDeviceCount E model n infos slices)"
  unfolding GetConfiguredDeviceCount_def getPodAllocatedDevicesCount_def by (intro ends_rules) simp_all

lemma finishes_threshold:
  "stamped E (lp @ ''/last-used-time'') r \<Longrightarrow> finishes V X (isLastUsedOverThreshold E r lp d b)"
  unfolding isLastUsedOverThreshold_def stamped_def
  by (auto intro!: ends_rules split: option.splits)

lemma finishes_getNextSize:
  "finishes (good (lp @ ''/last-used-time'') ids names qs) X (getNextSize E cnt n lp d)"
  unfolding getNextSize_def
  by (rule ends_andThen [OF ends_wrapErr [OF ends_resources]])
    (auto intro!: ends_rules finishes_threshold simp: list_all_iff)

lemma finishes_DynamicDetach:
  "req_Name q \<in> qs \<Longrightarrow> finishes (good (lp @ ''/last-used-time'') ids names qs) X (DynamicDetach E q cnt n lp d)"
  unfolding DynamicDetach_def by (intro ends_rules finishes_getNextSize finishes_size) simp_all

lemma finishes_DynamicAttach:
  assumes "\<And>q. cr = Some q \<Longrightarrow> req_Name q \<in> qs"
  shows "finishes (good key ids names qs) X (DynamicAttach E cr cnt ty model n)"
  unfolding DynamicAttach_def createNewComposabilityRequestCR_def
  by (intro ends_case_option ends_andThen [OF ends_issue] finishes_size)
    (auto intro: ends_ret assms simp: timely_def)

lemma ends_handleDevice:
  assumes "\<And>q. q \<in> set requests \<Longrightarrow> req_Name q \<in> qs"
  shows "finishes (good (sp_LabelPrefix spec @ ''/last-used-time'') ids names qs) overLimit
    (handleDevice E r node infos slices spec requests device)"
  unfolding handleDevice_def Let_def
  by (intro ends_rules finishes_DynamicAttach finishes_DynamicDetach ends_raise)
    (auto simp: overLimit_def find_Some_iff intro: assms)

lemma ends_handleDevices:
  "finishes (good (sp_LabelPrefix spec @ ''/last-used-time'') ids names {}) overLimit
     (handleDevices E r node infos slices spec)"
  unfolding handleDevices_def
proof (rule ends_read_known)
  fix requests :: "ComposabilityRequest list"
  let ?key = "sp_LabelPrefix spec @ ''/last-used-time''"
  let ?qs = "req_Name ` set requests"
  have "finishes (good ?key ids names ?qs) overLimit
      (foldM (\<lambda>_. handleDevice E r node infos slices spec requests) () (sp_DeviceInfos spec))"
    by (intro ends_rules ends_handleDevice) simp
  moreover have "good ?key ids names ?qs = (\<lambda>w. good ?key ids names {} w \<and> ?qs \<subseteq> req_Name ` set (cl_requests (view w)))"
    by (auto simp: ready_def fun_eq_iff)
  ultimately show "finishes (\<lambda>w. good ?key ids names {} w \<and> ?qs \<subseteq> req_Name ` set (cl_requests (view w))) overLimit
      (foldM (\<lambda>_. handleDevice E r node infos slices spec requests) () (sp_DeviceInfos spec))"
    by simp
qed (simp add: lists)

lemma finishes_UpdateNodeLabel [ends_rules]: "finishes (good key ids names qs) X (UpdateNodeLabel E node spec)"
  unfolding UpdateNodeLabel_def Let_def by (intro ends_rules)

lemma finishes_lastUsed:
  "finishes (good (lp @ ''/last-used-time'') ids names qs) X (updateComposableResourceLastUsedTime E slices lp)"
  unfolding updateComposableResourceLastUsedTime_def
proof (rule ends_andThen [OF ends_wrapErr [OF ends_resources]])
  fix rs
  assume "list_all (\<lambda>r. cr_Name r \<in> names \<and> stamped E (lp @ ''/last-used-time'') r) rs"
  then show "finishes (good (lp @ ''/last-used-time'') ids names qs) X (foldM (\<lambda>_. touchResource E slices lp) () rs)"
    unfolding touchResource_def
    by (intro ends_rules ends_andThen [OF ends_peeks(2)] finishes_annotation) (auto simp: list_all_iff)
qed

subsection \<open>The two passes\<close>

lemma ends_sortByTime: "ends V X (\<lambda>ys. claimIds ys = claimIds infos) (sortByTime E infos order)"
  unfolding sortByTime_def by (intro ends_rules) (rule claimIds_mset, simp)

lemma ends_setDevicesState:
  "(rci_Namespace rc, rci_Name rc) \<in> ids \<Longrightarrow>
   ends (good key ids names qs) X (\<lambda>rc'. rc' = withState st rc) (setDevicesState E rc st ty)"
  unfolding setDevicesState_def by (intro ends_rules finishes_conditions) simp_all

lemma claimIds_update:
  "claimIds infos \<subseteq> ids \<Longrightarrow> (rci_Namespace c, rci_Name c) \<in> ids \<Longrightarrow> claimIds (infos[k := c]) \<subseteq> ids"
  using set_update_subset_insert [of infos k c] by (fastforce simp: claimIds_def)

lemma ends_failClaim:
  assumes "(rci_Namespace rc, rci_Name rc) \<in> ids" and "claimIds infos \<subseteq> ids"
  shows "ends (good key ids names qs) X (\<lambda>infos'. claimIds infos' \<subseteq> ids \<and> length infos' = length infos)
    (failClaim E infos k rc)"
  unfolding failClaim_def
  by (rule ends_andThen [OF ends_wrapErr [OF ends_setDevicesState [OF assms(1)]]])
    (use assms in \<open>simp add: ends_ret claimIds_update\<close>)

lemma ends_failedDevice:
  assumes "(rci_Namespace rc, rci_Name rc) \<in> ids" and "claimIds infos \<subseteq> ids"
  shows "ends (good key ids names qs) X (\<lambda>(infos', next). claimIds infos' \<subseteq> ids \<and> length infos' = length infos)
    (failedDevice E spec requests resources k rc infos i dev)"
proof -
  have other: "(rci_Namespace (infos ! j), rci_Name (infos ! j)) \<in> ids" if "j < length infos" for j
    using nth_claimIds [OF that] assms(2) by blast
  show ?thesis
    unfolding failedDevice_def
    by (intro ends_if ends_case_option ends_ret ends_andThen [OF ends_failClaim])
      (use assms other in \<open>auto simp: find_Some_iff\<close>)
qed

lemma ends_failedDevices:
  assumes "(rci_Namespace rc, rci_Name rc) \<in> ids"
  shows "claimIds infos \<subseteq> ids \<Longrightarrow>
    ends (good key ids names qs) X (\<lambda>(infos', next). claimIds infos' \<subseteq> ids \<and> length infos' = length infos)
      (failedDevices E spec requests resources k rc infos i devs)"
proof (induction devs arbitrary: infos i)
  case (Cons dev devs)
  show ?case
    by (simp, rule ends_andThen [OF ends_failedDevice [OF assms Cons.prems]])
      (use Cons.IH in \<open>fastforce intro!: ends_rules\<close>)
qed (simp add: ends_ret)

lemma ends_failedClaim:
  assumes "claimIds infos \<subseteq> ids" and "k < length infos"
  shows "ends (good key ids names qs) X (\<lambda>infos'. claimIds infos' \<subseteq> ids \<and> length infos' = length infos)
    (failedClaim E node slices spec requests resources infos k)"
proof -
  have rc: "(rci_Namespace (infos ! k), rci_Name (infos ! k)) \<in> ids" using nth_claimIds assms by blast
  have step: "ends (good key ids names qs) X (\<lambda>infos'. claimIds infos' \<subseteq> ids \<and> length infos' = length infos)
      (limitStep E node slices k (infos ! k) b entry)"
    if "claimIds b \<subseteq> ids \<and> length b = length infos" for b entry
    unfolding limitStep_def using that ends_failClaim [OF rc, of b] by (intro ends_rules) auto
  show ?thesis
    unfolding failedClaim_def
    by (rule ends_andThen [OF ends_failedDevices [OF rc assms(1)]]) (auto intro!: ends_rules ends_foldM step)
qed

lemma ends_failed_pass:
  assumes "claimIds infos \<subseteq> ids"
  shows "ends (good key ids names qs) X (\<lambda>infos'. claimIds infos' \<subseteq> ids)
    (RescheduleFailedNotification E node infos slices spec)"
proof -
  have pass: "ends (good key ids names qs) X (\<lambda>infos'. claimIds infos' \<subseteq> ids)
      (foldM (failedClaim E node slices spec requests resources) ys [0..<length ys])"
    if "claimIds ys = claimIds infos" for requests resources ys
    using assms that
    by (intro ends_weaken [OF ends_foldM [where I = "\<lambda>zs. claimIds zs \<subseteq> ids \<and> length zs = length ys"]])
      (auto intro: ends_weaken [OF ends_failedClaim])
  show ?thesis
    unfolding RescheduleFailedNotification_def
    by (intro ends_seq ends_wrapErr ends_lists ends_andThen [OF ends_sortByTime] pass)
qed

lemma finishes_isOvertime [ends_rules]: "finishes V X (isOvertime E r lp d)"
  unfolding isOvertime_def isLastUsedOverThreshold_def ends_def
  by (auto simp: now_def peekOp_def andThen_def ret_def raise_def reads_only split_beta split: option.split sum.split)

lemma finishes_candidate [ends_rules]: "finishes V X (candidate E slices lp d rc model matched r)"
  unfolding candidate_def by (intro ends_rules) simp_all

lemma ends_matchModel:
  "cr_Name ` set rs \<subseteq> names \<Longrightarrow> set matched \<subseteq> names \<Longrightarrow>
   ends V X (\<lambda>(m, found). set m \<subseteq> names) (matchModel E slices lp d rc model cnt matched k rs)"
  by (induction rs arbitrary: matched k) (auto intro!: ends_rules)

lemma ends_matchModels:
  assumes "cr_Name ` set rs \<subseteq> names"
  shows "set matched \<subseteq> names \<Longrightarrow>
    ends V X (pred_option (\<lambda>m. set m \<subseteq> names)) (matchModels E slices lp d rc rs matched models)"
proof (induction models arbitrary: matched)
  case (Cons entry models)
  obtain model cnt where entry: "entry = (model, cnt)" by (cases entry)
  show ?case
    by (simp add: entry, rule ends_andThen [OF ends_matchModel [OF assms Cons.prems]])
      (auto intro!: ends_rules Cons.IH)
qed (simp add: ends_ret)

lemma finishes_annotateMatched:
  assumes "set m \<subseteq> names"
  shows "finishes (good key ids names qs) X (annotateMatched E lp m)"
  unfolding annotateMatched_def
  by (rule ends_andThen [OF ends_peeks(2)], rule ends_andThen [OF ends_rangeOrder])
    (use assms in \<open>auto intro!: ends_rules finishes_annotation\<close>)

lemma ends_notifyClaim:
  assumes "claimIds infos \<subseteq> ids" and "k < length infos" and "cr_Name ` set rs \<subseteq> names"
  shows "ends (good key ids names qs) X (\<lambda>infos'. claimIds infos' \<subseteq> ids \<and> length infos' = length infos)
    (notifyClaim E slices lp d rs infos k)"
proof -
  have rc: "(rci_Namespace (infos ! k), rci_Name (infos ! k)) \<in> ids" using nth_claimIds assms(1,2) by blast
  have mark: "ends (good key ids names qs) X (\<lambda>infos'. claimIds infos' \<subseteq> ids \<and> length infos' = length infos)
      (andThen (wrapErr ''failed to set devices state''
         (setDevicesState E (infos ! k) ''Reschedule'' ''FabricDeviceReschedule'')) (\<lambda>rc'.
       andThen (annotateMatched E lp m) (\<lambda>_. ret (infos[k := rc']))))"
    if "set m \<subseteq> names" for m
    by (rule ends_andThen [OF ends_wrapErr [OF ends_setDevicesState [OF rc]]])
      (use assms(1) rc that in \<open>simp add: ends_seq finishes_annotateMatched ends_ret claimIds_update\<close>)
  show ?thesis
    unfolding notifyClaim_def Let_def
    by (intro ends_if ends_ret ends_seq finishes_rangeOrder ends_andThen [OF ends_matchModels [OF assms(3)]]
        ends_case_option mark) (use assms(1) in auto)
qed

lemma ends_reschedule_pass:
  assumes "claimIds infos \<subseteq> ids"
  shows "ends (good key ids names qs) X (\<lambda>infos'. claimIds infos' \<subseteq> ids)
    (RescheduleNotification E infos slices lp d)"
proof -
  have pass: "ends (good key ids names qs) X (\<lambda>infos'. claimIds infos' \<subseteq> ids)
      (foldM (notifyClaim E slices lp d rs) ys [0..<length ys])"
    if "claimIds ys = claimIds infos" "cr_Name ` set rs \<subseteq> names" for ys rs
    using assms that
    by (intro ends_weaken [OF ends_foldM [where I = "\<lambda>zs. claimIds zs \<subseteq> ids \<and> length zs = length ys"]])
      (auto intro: ends_weaken [OF ends_notifyClaim])
  show ?thesis
    unfolding RescheduleNotification_def
    by (rule ends_andThen [OF ends_wrapErr [OF ends_resources]])
      (intro ends_if ends_ret assms ends_andThen [OF ends_sortByTime] pass, auto simp: list_all_iff)
qed

subsection \<open>The reconciliation\<close>

lemma claimIds_shareDevices: "claimIds (shareDevices claims infos) = claimIds infos"
  unfolding claimIds_def shareDevices_def by (auto simp: image_iff split: option.split)

lemma ends_handleNodes:
  assumes "claimIds infos \<subseteq> ids"
  shows "finishes (good (sp_LabelPrefix spec @ ''/last-used-time'') ids names {}) overLimit
    (handleNodes E r nodes infos slices spec)"
proof -
  have node: "ends (good (sp_LabelPrefix spec @ ''/last-used-time'') ids names {}) overLimit
      (\<lambda>infos'. claimIds infos' \<subseteq> ids) (handleNode E r slices spec zs node)"
    if "claimIds zs \<subseteq> ids" for zs node
    unfolding handleNode_def
    by (rule ends_andThen [OF ends_wrapErr [OF ends_failed_pass]], use that claimIds_filter in blast,
        rule ends_andThen [OF ends_wrapErr [OF ends_reschedule_pass]], assumption)
      (use that in \<open>simp add: ends_seq ends_wrapErr ends_handleDevices finishes_UpdateNodeLabel ends_ret
        claimIds_shareDevices\<close>)
  show ?thesis
    unfolding handleNodes_def
    by (rule ends_weaken [OF ends_foldM [where I = "\<lambda>zs. claimIds zs \<subseteq> ids"]]) (simp_all add: assms node)
qed

lemma collectInfo_claims:
  assumes "collectInfo E s = (Ok (claims, slices, nodes, spec), u)"
  shows "claimIds claims \<subseteq> (\<lambda>c. (rc_Namespace c, rc_Name c)) ` set (cl_claims (view (wld s)))"
proof -
  from assms obtain t t' where config: "GetConfigMapInfo E s = (Ok spec, t)"
    and get: "GetResourceClaimInfo E spec t = (Ok claims, t')"
    by (auto simp: collectInfo_def andThen_Ok ret_def)
  have "replays E (GetConfigMapInfo E)" unfolding GetConfigMapInfo_def by (intro replay_rules)
  with config have "wld t = wld s" by (intro silent_still [OF _ does_GetConfigMapInfo])
  with get obtain ss where "claimInfos spec ss 0 (cl_claims (view (wld s))) = Ok claims"
    by (auto simp: GetResourceClaimInfo_def andThen_Ok readOp_def lift_def lists)
  then have desc: "list_all2 (describesClaim spec) (filter tracked (cl_claims (view (wld s)))) claims"
    by (auto dest: claimInfos_Ok)
  show ?thesis
  proof (rule subsetI, unfold claimIds_def, elim imageE)
    fix x i
    assume x: "x = (rci_Namespace i, rci_Name i)" and "i \<in> set claims"
    with desc obtain c where "c \<in> set (cl_claims (view (wld s)))" "describesClaim spec c i"
      by (metis filter_is_subset in_set_conv_nth list_all2_conv_all_nth subsetD)
    with x show "x \<in> (\<lambda>c. (rc_Namespace c, rc_Name c)) ` set (cl_claims (view (wld s)))"
      by (auto simp: describesClaim_def)
  qed
qed

lemma Reconcile_progress:
  assumes collect: "collectInfo E s = (Ok (claims, slices, nodes, spec), u)"
    and stamps: "list_all (stamped E (sp_LabelPrefix spec @ ''/last-used-time'')) (cl_resources (view (wld s)))"
    and run: "Reconcile E r s = (res, t)"
  shows "res = Ok \<lparr>res_RequeueAfter = r_ScanInterval r\<rparr> \<or>
    (\<exists>e. res = Fail e \<and> overLimit (cause e))"
proof -
  let ?key = "sp_LabelPrefix spec @ ''/last-used-time''"
  let ?V = "good ?key (claimIds claims) (cr_Name ` set (cl_resources (view (wld s)))) {}"
  have V: "?V (wld u)"
    using collectInfo_claims [OF collect] stamps silent_still [OF replays_collect does_collectInfo collect] by (simp add: ready_def)
  have "ends ?V overLimit (\<lambda>res. res = \<lparr>res_RequeueAfter = r_ScanInterval r\<rparr>)
      (andThen (updateComposableResourceLastUsedTime E slices (sp_LabelPrefix spec)) (\<lambda>_.
       andThen (handleNodes E r nodes claims slices spec) (\<lambda>_. ret \<lparr>res_RequeueAfter = r_ScanInterval r\<rparr>)))"
    by (intro ends_rules finishes_lastUsed ends_handleNodes) simp_all
  from endsD [OF this V] run show ?thesis
    by (auto simp: Reconcile_def andThen_run(1) [where m = "collectInfo E", OF collect] split: outcome.splits)
qed

end

section \<open>Properties\<close>



end
