(* ===== verification/Recollection.thy ===== *)
theory Recollection
  imports Progress
begin

text \<open>
  Two consecutive reconciliations. The passes mark claims in memory and write conditions into the
  claims' statuses; the next reconciliation reads the statuses. On a server that stores what it accepts,
  the collection after a reconciliation yields exactly the claims as the reconciliation left them in
  memory. \<open>yields P m R\<close> is the triple for it: from a world that satisfies \<open>P\<close>, every value that \<open>m\<close> returns
  satisfies \<open>R\<close> together with the world after it.
\<close>

named_theorems yields_rules

section \<open>Values and the world\<close>

definition yields :: "('w \<Rightarrow> bool) \<Rightarrow> ('w, 'c, 'a) prog \<Rightarrow> ('a \<Rightarrow> 'w \<Rightarrow> bool) \<Rightarrow> bool" where
  "yields P m R \<longleftrightarrow> (\<forall>s x t. P (wld s) \<longrightarrow> m s = (Ok x, t) \<longrightarrow> R x (wld t))"

lemma yieldsD: "yields P m R \<Longrightarrow> P (wld s) \<Longrightarrow> m s = (Ok x, t) \<Longrightarrow> R x (wld t)"
  unfolding yields_def by blast

lemma yields_weaken:
  "yields P m R \<Longrightarrow> (\<And>w. P' w \<Longrightarrow> P w) \<Longrightarrow> (\<And>x w. R x w \<Longrightarrow> R' x w) \<Longrightarrow> yields P' m R'"
  unfolding yields_def by blast

lemma yields_ret [yields_rules]: "(\<And>w. P w \<Longrightarrow> R x w) \<Longrightarrow> yields P (ret x) R"
  by (simp add: yields_def ret_def)

lemma yields_raise [yields_rules]: "yields P (raise e) R"
  by (simp add: yields_def raise_def)

lemma yields_andThen: "yields P m R \<Longrightarrow> (\<And>x. yields (R x) (f x) S) \<Longrightarrow> yields P (andThen m f) S"
  unfolding yields_def andThen_Ok by blast

lemma yields_wrapErr [yields_rules]: "yields P m R \<Longrightarrow> yields P (wrapErr msg m) R"
  by (simp add: yields_def)

lemma yields_if [yields_rules]:
  "(b \<Longrightarrow> yields P m R) \<Longrightarrow> (\<not> b \<Longrightarrow> yields P n R) \<Longrightarrow> yields P (if b then m else n) R"
  by simp

lemma yields_case_option [yields_rules]:
  "(x = None \<Longrightarrow> yields P m R) \<Longrightarrow> (\<And>y. x = Some y \<Longrightarrow> yields P (f y) R) \<Longrightarrow>
   yields P (case x of None \<Rightarrow> m | Some y \<Rightarrow> f y) R"
  by (cases x) auto

lemma yields_case_prod [yields_rules]:
  "(\<And>a b. x = (a, b) \<Longrightarrow> yields P (f a b) R) \<Longrightarrow> yields P (case x of (a, b) \<Rightarrow> f a b) R"
  by (cases x) auto

lemma yields_foldM:
  assumes "\<And>a x. x \<in> set xs \<Longrightarrow> yields (I a) (f a x) I"
  shows "yields (I a) (foldM f a xs) I"
  using assms
proof (induction xs arbitrary: a)
  case (Cons x xs)
  then show ?case by (auto intro!: yields_andThen [where R = I])
qed (simp add: yields_ret)

text \<open>A pure fact of the world can be moved in front of the triple, and a fact of the value from \<open>does\<close> joined.\<close>

lemma yields_assume: "(A \<Longrightarrow> yields P m R) \<Longrightarrow> yields (\<lambda>w. A \<and> P w) m R"
  unfolding yields_def by blast

lemma yields_does: "yields P m R \<Longrightarrow> does C Q m \<Longrightarrow> yields P m (\<lambda>x w. Q x \<and> R x w)"
  unfolding yields_def by (auto dest: doesD_value)

lemma yields_still: "(\<And>s. P (wld s) \<Longrightarrow> P (wld (snd (m s)))) \<Longrightarrow> yields P m (\<lambda>_. P)"
  unfolding yields_def
proof (intro allI impI)
  fix s x t
  assume keep: "\<And>s. P (wld s) \<Longrightarrow> P (wld (snd (m s)))" and "P (wld s)" and "m s = (Ok x, t)"
  with keep [of s] show "P (wld t)" by simp
qed

lemma yields_retryLoop:
  assumes "yields P attempt (\<lambda>r w. case r of None \<Rightarrow> Q w | Some e \<Rightarrow> P w)"
  shows "yields P (retryLoop n attempt lastErr) (\<lambda>_. Q)"
  by (induction n arbitrary: lastErr)
    (auto intro!: yields_raise yields_andThen [OF assms] yields_ret split: option.split)

section \<open>States that are written and read\<close>

text \<open>Status entries with a condition set on each.\<close>

definition updated :: "string \<Rightarrow> AllocatedDeviceStatus list \<Rightarrow> AllocatedDeviceStatus list \<Rightarrow> bool" where
  "updated ty ds ds' \<longleftrightarrow> list_all2 (\<lambda>d d'. \<exists>t. d' = updateDevice t ty d) ds ds'"

lemma updated_run: "updateDevices E ty ds s = (Ok ds', t) \<Longrightarrow> updated ty ds ds'"
proof (induction ds arbitrary: ds' s)
  case (Cons d ds)
  then show ?case by (auto simp: andThen_Ok ret_def updated_def)
qed (simp add: ret_def updated_def)

lemma hasCondition_other:
  "T \<noteq> cond_Type nc \<Longrightarrow> hasConditionWithStatus (setCondition nc cs) T st = hasConditionWithStatus cs T st"
  by (induction nc cs rule: setCondition.induct) (auto simp: hasConditionWithStatus_def)

lemma statusStep_rescheduled:
  "statusStep a st (updateDevice t ''FabricDeviceReschedule'' d) =
     (if ads_Device d = dra_Device a then ''Reschedule'' else st)"
  using updateDevice_has [of t "''FabricDeviceReschedule''" d] by (auto simp: updateDevice_def conditionsOf_def)

lemma statusStep_failed:
  "statusStep a st (updateDevice t ''FabricDeviceFailed'' d) =
     (if ads_Device d = dra_Device a
      then if hasConditionWithStatus (conditionsOf d) ''FabricDeviceReschedule'' ''True'' then ''Reschedule'' else ''Failed''
      else st)"
  using updateDevice_has [of t "''FabricDeviceFailed''" d]
  by (auto simp: updateDevice_def conditionsOf_def hasCondition_other newCondition_def split: option.splits)

lemma foldl_rescheduled:
  assumes "updated ''FabricDeviceReschedule'' ds ds'"
  shows "foldl (statusStep a) st ds' = (if \<exists>d\<in>set ds. ads_Device d = dra_Device a then ''Reschedule'' else st)"
  using assms unfolding updated_def
  by (induction ds ds' arbitrary: st rule: list_all2_induct)
    (auto simp del: statusStep.simps simp: statusStep_rescheduled)

lemma foldl_no_entry:
  "(\<And>d. d \<in> set ds \<Longrightarrow> ads_Device d \<noteq> dra_Device a) \<Longrightarrow> foldl (statusStep a) st ds = st"
  by (induction ds arbitrary: st) auto

lemma updated_devices: "updated ty ds ds' \<Longrightarrow> map ads_Device ds' = map ads_Device ds"
  unfolding updated_def by (induction rule: list_all2_induct) (auto simp: updateDevice_def)

text \<open>The last entry of a device decides; where it did not ask for rescheduling, it now says failed.\<close>

lemma foldl_failed:
  assumes "updated ''FabricDeviceFailed'' ds ds'" and "\<exists>d\<in>set ds. ads_Device d = dra_Device a"
    and "foldl (statusStep a) st0 ds \<noteq> ''Reschedule''"
  shows "foldl (statusStep a) st ds' = ''Failed''"
  using assms unfolding updated_def
proof (induction ds ds' arbitrary: st st0 rule: list_all2_induct)
  case (Cons d ds d' ds')
  show ?case
  proof (cases "\<exists>e\<in>set ds. ads_Device e = dra_Device a")
    case True
    with Cons show ?thesis by auto
  next
    case False
    have "map ads_Device ds' = map ads_Device ds"
      using Cons.hyps(2) by (intro updated_devices) (simp add: updated_def)
    then have "ads_Device ` set ds' = ads_Device ` set ds" by (metis list.set_map)
    with False have none: "\<And>e. e \<in> set ds' \<Longrightarrow> ads_Device e \<noteq> dra_Device a" by (metis imageE image_eqI)
    with False Cons.prems have "ads_Device d = dra_Device a" "statusStep a st0 d \<noteq> ''Reschedule''"
      by (auto simp: foldl_no_entry simp del: statusStep.simps)
    with Cons.hyps(1) none show ?thesis
      by (auto simp: foldl_no_entry statusStep_failed conditionsOf_def hasConditionWithStatus_def
          split: option.splits simp del: statusStep.simps)
        (auto simp: hasConditionWithStatus_def)
  qed
qed simp

lemma statusDevices_entry:
  assumes "a \<in> set (boundResults c)" and "deviceState (rc_Devices c) a \<noteq> []"
  shows "\<exists>d\<in>set (statusDevices c). ads_Device d = dra_Device a"
proof (cases "rc_Devices c = []")
  case True
  from assms(1) obtain al where "rc_Allocation c = Some al" "a \<in> set (al_Results al)"
    by (cases "rc_Allocation c") (auto simp: boundResults_def)
  with True show ?thesis by (force simp: statusDevices_def)
next
  case False
  then have "\<not> (\<forall>d\<in>set (rc_Devices c). ads_Device d \<noteq> dra_Device a)"
    using assms(2) foldl_no_entry [of "rc_Devices c" a "[]"] by (auto simp: deviceState_def)
  with False show ?thesis by (auto simp: statusDevices_def)
qed

lemma statusDevices_not_rescheduled:
  assumes "deviceState (rc_Devices c) a \<noteq> ''Reschedule''"
  shows "foldl (statusStep a) [] (statusDevices c) \<noteq> ''Reschedule''"
proof (cases "rc_Devices c = []")
  case True
  have "foldl (statusStep a) st ds = st" if "\<forall>d\<in>set ds. ads_Conditions d = None" for st ds
    using that by (induction ds arbitrary: st) auto
  then show ?thesis using True by (auto simp: statusDevices_def split: option.splits)
next
  case False
  with assms show ?thesis by (simp add: statusDevices_def deviceState_def)
qed

text \<open>The condition that stands for a state, and the states it may be written over.\<close>

definition conditionFor :: "string \<Rightarrow> string \<Rightarrow> string set \<Rightarrow> bool" where
  "conditionFor ty st olds \<longleftrightarrow>
     (ty = ''FabricDeviceReschedule'' \<and> st = ''Reschedule'' \<and> olds = {''Preparing''}) \<or>
     (ty = ''FabricDeviceFailed'' \<and> st = ''Failed'' \<and> olds = {''Preparing'', ''Failed''})"

lemma deviceState_written:
  assumes "conditionFor ty st olds" and "updated ty (statusDevices c) ds" and "a \<in> set (boundResults c)"
    and "deviceState (rc_Devices c) a \<in> olds"
  shows "deviceState ds a = st"
proof -
  from assms(1,4) have "deviceState (rc_Devices c) a \<noteq> []" "deviceState (rc_Devices c) a \<noteq> ''Reschedule''"
    by (auto simp: conditionFor_def)
  then have entry: "\<exists>d\<in>set (statusDevices c). ads_Device d = dra_Device a"
    and not: "foldl (statusStep a) [] (statusDevices c) \<noteq> ''Reschedule''"
    using statusDevices_entry [OF assms(3)] statusDevices_not_rescheduled by blast+
  have "ds \<noteq> []" using entry assms(2) by (auto simp: updated_def)
  then show ?thesis
    using assms(1,2) entry foldl_failed [OF _ entry not] foldl_rescheduled
    by (auto simp: conditionFor_def deviceState_def)
qed

lemma describesClaim_written:
  assumes "describesClaim spec c i" and "conditionFor ty st olds" and "updated ty (statusDevices c) ds"
    and "\<And>d. d \<in> set (rci_Devices i) \<Longrightarrow> rcd_State d \<in> olds"
  shows "describesClaim spec (c\<lparr>rc_Devices := ds\<rparr>) (withState st i)"
proof -
  have "list_all2 (describesDevice spec (c\<lparr>rc_Devices := ds\<rparr>)) (boundResults c)
      (map (\<lambda>d. d\<lparr>rcd_State := st\<rparr>) (rci_Devices i))"
    unfolding list_all2_map2
  proof (rule list_all2_all_nthI)
    show len: "length (boundResults c) = length (rci_Devices i)"
      using assms(1) by (auto simp: describesClaim_def dest: list_all2_lengthD)
    fix n
    assume n: "n < length (boundResults c)"
    let ?a = "boundResults c ! n" and ?d = "rci_Devices i ! n"
    have d: "describesDevice spec c ?a ?d" using assms(1) n by (simp add: describesClaim_def list_all2_nthD)
    moreover have "deviceState (rc_Devices c) ?a \<in> olds"
      using d assms(4) [of ?d] n len by (simp add: describesDevice_def)
    ultimately show "describesDevice spec (c\<lparr>rc_Devices := ds\<rparr>) ?a (?d\<lparr>rcd_State := st\<rparr>)"
      using deviceState_written [OF assms(2,3)] n by (simp add: describesDevice_def)
  qed
  with assms(1) show ?thesis
    by (simp add: describesClaim_def withState_def boundResults_def claimNode_def)
qed

section \<open>What the controller believes of the claims\<close>

definition ident :: "ResourceClaim \<Rightarrow> string \<times> string" where
  "ident c = (rc_Namespace c, rc_Name c)"

definition infoIdent :: "ResourceClaimInfo \<Rightarrow> string \<times> string" where
  "infoIdent i = (rci_Namespace i, rci_Name i)"

definition believes :: "ComposableDRASpec \<Rightarrow> ResourceClaimInfo set \<Rightarrow> ResourceClaim list \<Rightarrow> bool" where
  "believes spec infos claims \<longleftrightarrow>
     distinct (map ident claims) \<and>
     (\<forall>i\<in>infos. \<forall>c\<in>set claims. ident c = infoIdent i \<longrightarrow> describesClaim spec c i)"

lemma believes_subset: "believes spec X claims \<Longrightarrow> Y \<subseteq> X \<Longrightarrow> believes spec Y claims"
  by (auto simp: believes_def)

text \<open>
  Writing a claim's status keeps the belief in the other claims, and makes it true of the marked one.
\<close>

lemma believes_written:
  assumes bel: "believes spec (insert i rest) claims" and c: "c \<in> set claims" "ident c = infoIdent i"
    and "conditionFor ty st olds" and "updated ty (statusDevices c) ds"
    and "\<And>d. d \<in> set (rci_Devices i) \<Longrightarrow> rcd_State d \<in> olds" and other: "\<And>j. j \<in> rest \<Longrightarrow> infoIdent j \<noteq> infoIdent i"
  shows "believes spec (insert (withState st i) rest)
    (changeBy (\<lambda>x. ident x = infoIdent i) (\<lambda>x. x\<lparr>rc_Devices := ds\<rparr>) claims)"
proof -
  let ?f = "\<lambda>x. if ident x = infoIdent i then x\<lparr>rc_Devices := ds\<rparr> else x"
  have ident: "ident (?f x) = ident x" for x by (simp add: ident_def)
  have dist: "distinct (map ident (map ?f claims))" using bel by (simp add: believes_def comp_def ident)
  have same: "x = c" if "x \<in> set claims" "ident x = infoIdent i" for x
    using bel c that by (metis believes_def distinct_map inj_onD)
  have "describesClaim spec (?f x) j"
    if "j \<in> insert (withState st i) rest" "x \<in> set claims" "ident (?f x) = infoIdent j" for j x
  proof (cases "j \<in> rest")
    case True
    with that ident have "ident x = infoIdent j" by simp
    with True other [OF True] that(2) bel show ?thesis by (simp add: believes_def)
  next
    case False
    with that(1) have j: "j = withState st i" by simp
    with that ident have x: "ident x = infoIdent i" by (simp add: infoIdent_def)
    with same that(2) have "x = c" by blast
    moreover have "describesClaim spec c i" using bel c by (auto simp: believes_def)
    ultimately show ?thesis using describesClaim_written assms(4-6) x j by simp
  qed
  then have "describesClaim spec y j"
    if "j \<in> insert (withState st i) rest" "y \<in> ?f ` set claims" "ident y = infoIdent j" for j y
    using that by (elim imageE) (simp only:)
  with dist show ?thesis unfolding believes_def changeBy_def set_map by blast
qed

text \<open>
  The claims a pass works on: no two of the same identity, none of them among the other claims \<open>others\<close>,
  and each waiting with all its devices or with none.
\<close>

definition uniform :: "ResourceClaimInfo \<Rightarrow> bool" where
  "uniform c \<longleftrightarrow> allPreparing c \<or> \<not> somePreparing c"

definition sound :: "ResourceClaimInfo set \<Rightarrow> ResourceClaimInfo list \<Rightarrow> bool" where
  "sound others infos \<longleftrightarrow>
     distinct (map infoIdent infos) \<and> infoIdent ` set infos \<inter> infoIdent ` others = {} \<and> list_all uniform infos"

lemma infoIdent_withState [simp]: "infoIdent (withState st c) = infoIdent c"
  by (simp add: infoIdent_def)

lemma withState_again [simp]: "withState st (withState st' c) = withState st c"
  by (simp add: withState_def comp_def)

lemma uniform_withState: "st \<noteq> ''Preparing'' \<Longrightarrow> uniform (withState st c)"
  by (auto simp: uniform_def somePreparing_def list_ex_iff withState_def)

lemma sound_marked:
  assumes "sound others infos" and "k < length infos" and "st \<noteq> ''Preparing''"
  shows "sound others (infos[k := withState st (infos ! k)])"
proof -
  have ids: "map infoIdent (infos[k := withState st (infos ! k)]) = map infoIdent infos"
    using assms(2) by (intro nth_equalityI) (auto simp: nth_list_update)
  then have "infoIdent ` set (infos[k := withState st (infos ! k)]) = infoIdent ` set infos" by (metis list.set_map)
  moreover have "list_all uniform (infos[k := withState st (infos ! k)])"
    using assms by (auto simp: sound_def list_all_length nth_list_update uniform_withState)
  ultimately show ?thesis using assms(1) ids by (simp add: sound_def)
qed

lemma believes_marked:
  assumes snd: "sound others infos" and k: "k < length infos" and bel: "believes spec (set infos \<union> others) claims"
    and "c \<in> set claims" "ident c = infoIdent (infos ! k)"
    and "conditionFor ty st olds" and "updated ty (statusDevices c) ds"
    and "\<And>d. d \<in> set (rci_Devices (infos ! k)) \<Longrightarrow> rcd_State d \<in> olds"
  shows "believes spec (set (infos[k := withState st (infos ! k)]) \<union> others)
    (changeBy (\<lambda>x. ident x = infoIdent (infos ! k)) (\<lambda>x. x\<lparr>rc_Devices := ds\<rparr>) claims)"
proof -
  let ?rest = "set (take k infos) \<union> set (drop (Suc k) infos) \<union> others"
  have split: "infos = take k infos @ infos ! k # drop (Suc k) infos" using k by (rule id_take_nth_drop)
  have all: "insert (infos ! k) ?rest = set infos \<union> others" by (subst (4) split) auto
  have neq: "infoIdent j \<noteq> infoIdent (infos ! k)" if "j \<in> ?rest" for j
  proof -
    have dist: "distinct (map infoIdent (take k infos @ infos ! k # drop (Suc k) infos))"
      using snd by (subst split [symmetric]) (simp add: sound_def)
    have "infoIdent (infos ! k) \<notin> infoIdent ` others" using snd k by (force simp: sound_def)
    with dist that show ?thesis by (auto simp: image_iff)
  qed
  have "believes spec (insert (withState st (infos ! k)) ?rest)
      (changeBy (\<lambda>x. ident x = infoIdent (infos ! k)) (\<lambda>x. x\<lparr>rc_Devices := ds\<rparr>) claims)"
    by (rule believes_written [OF bel [folded all] assms(4-8) neq])
  then show ?thesis
    by (rule believes_subset) (auto simp: upd_conv_take_nth_drop [OF k])
qed

section \<open>A server that stores what it accepts\<close>

fun claimCall :: "api_call \<Rightarrow> bool" where
  "claimCall (PatchClaimStatus ns n ds) = True"
| "claimCall _ = False"

locale faithful_api = server_api E view
  for E :: "'w env" and view :: "'w \<Rightarrow> cluster" +
  assumes list_claims_stored: "listResourceClaims E w = (Inr (cl_claims (view w)), w)"
    and list_slices_stored: "listResourceSlices E w = (Inr (cl_slices (view w)), w)"
    and get_claim_stored: "getResourceClaim E ns n w = (Inr c, w') \<Longrightarrow> c \<in> set (cl_claims (view w)) \<and> ident c = (ns, n)"
begin

abbreviation knows :: "ComposableDRASpec \<Rightarrow> ResourceClaimInfo set \<Rightarrow> ResourceClaimInfo list \<Rightarrow> 'w \<Rightarrow> bool" where
  "knows spec others infos w \<equiv> sound others infos \<and> believes spec (set infos \<union> others) (cl_claims (view w))"

lemma yields_patchOnce:
  "yields (\<lambda>w. view w = v) (patchOnce E msg c)
     (\<lambda>r w. case r of None \<Rightarrow> callEffect c v (view w) | Some e \<Rightarrow> view w = v)"
  unfolding yields_def
proof (intro allI impI)
  fix s r t
  assume v: "view (wld s) = v" and run: "patchOnce E msg c s = (Ok r, t)"
  obtain q w where q: "apply_call E c (wld s) = (q, w)" by fastforce
  from run q have "wld t = w" "r = q"
    by (auto simp: patchOnce_def issue_def writeOp_def andThen_def ret_def raise_def split: option.splits if_splits)
  with q v accepted rejected show "case r of None \<Rightarrow> callEffect c v (view (wld t)) | Some e \<Rightarrow> view (wld t) = v"
    by (cases q) auto
qed

lemma yields_silent: "replays E m \<Longrightarrow> does (\<lambda>_. False) Q m \<Longrightarrow> yields P m (\<lambda>x w. Q x \<and> P w)"
  unfolding yields_def by (metis doesD_value silent_still)

lemma yields_updateDevices:
  "yields P (updateDevices E ty ds) (\<lambda>ds' w. updated ty ds ds' \<and> P w)"
proof -
  have "does (\<lambda>_. False) (updated ty ds) (updateDevices E ty ds)"
  proof (rule doesI)
    show "\<exists>new. calls (snd (updateDevices E ty ds s)) = calls s @ new \<and> list_all (\<lambda>_. False) new" for s
      using updateDevices_run [where E = E and ds = ds and s = s and conditionType = ty] by (metis append_Nil2 list.pred_inject(1) snd_conv)
    show "updated ty ds x" if "fst (updateDevices E ty ds s) = Ok x" for s x
      using updated_run run_eqI [OF that] by metis
  qed
  with replays_updateDevices show ?thesis by (rule yields_silent)
qed

text \<open>What setting the conditions of a claim does to the stored claims.\<close>

definition conditionsSet :: "string \<Rightarrow> string \<times> string \<Rightarrow> cluster \<Rightarrow> cluster \<Rightarrow> bool" where
  "conditionsSet ty i v v' \<longleftrightarrow>
     (\<exists>c\<in>set (cl_claims v). ident c = i \<and>
        (statusDevices c = [] \<and> v' = v \<or>
         (\<exists>ds. updated ty (statusDevices c) ds \<and> callEffect (PatchClaimStatus (fst i) (snd i) ds) v v')))"

lemma yields_conditions:
  "yields (\<lambda>w. view w = v) (PatchResourceClaimDeviceConditions E n ns ty) (\<lambda>_ w. conditionsSet ty (ns, n) v (view w))"
proof -
  have get: "yields (\<lambda>w. view w = v) (readOp (getResourceClaim E ns n))
      (\<lambda>c w. (c \<in> set (cl_claims v) \<and> ident c = (ns, n)) \<and> view w = v)"
    unfolding yields_def
  proof (intro allI impI)
    fix s c t
    assume v: "view (wld s) = v" and run: "readOp (getResourceClaim E ns n) s = (Ok c, t)"
    then obtain w where "getResourceClaim E ns n (wld s) = (Inr c, w)" "wld t = w"
      by (auto simp: readOp_def split: prod.splits sum.splits)
    moreover from this have "w = wld s" using reads_only(9) [of ns n "wld s"] by simp
    ultimately show "(c \<in> set (cl_claims v) \<and> ident c = (ns, n)) \<and> view (wld t) = v"
      using get_claim_stored [of ns n "wld s" c w] v by simp
  qed
  have "yields (\<lambda>w. view w = v) (conditionsAttempt E n ns ty)
      (\<lambda>r w. case r of None \<Rightarrow> conditionsSet ty (ns, n) v (view w) | Some e \<Rightarrow> view w = v)"
    unfolding conditionsAttempt_def
  proof (rule yields_andThen [OF yields_wrapErr [OF get]], rule yields_assume, rule yields_if)
    fix c
    assume c: "c \<in> set (cl_claims v) \<and> ident c = (ns, n)"
    show "yields (\<lambda>w. view w = v) (ret None)
        (\<lambda>r w. case r of None \<Rightarrow> conditionsSet ty (ns, n) v (view w) | Some e \<Rightarrow> view w = v)"
      if "statusDevices c = []" using c that by (auto intro!: yields_ret simp: conditionsSet_def)
    show "yields (\<lambda>w. view w = v) (andThen (updateDevices E ty (statusDevices c)) (\<lambda>devices.
        patchOnce E ''failed to patch ResourceClaim status'' (PatchClaimStatus ns n devices)))
        (\<lambda>r w. case r of None \<Rightarrow> conditionsSet ty (ns, n) v (view w) | Some e \<Rightarrow> view w = v)"
      by (rule yields_andThen [OF yields_updateDevices], rule yields_assume, rule yields_weaken [OF yields_patchOnce])
        (use c in \<open>auto simp: conditionsSet_def split: option.splits\<close>)
  qed
  then show ?thesis unfolding PatchResourceClaimDeviceConditions_def by (rule yields_retryLoop)
qed

lemma yields_setDevicesState:
  assumes k: "k < length infos" and rc: "infoIdent rc = infoIdent (infos ! k)" "withState st rc = withState st (infos ! k)"
    and ty: "conditionFor ty st olds" and st: "\<And>d. d \<in> set (rci_Devices (infos ! k)) \<Longrightarrow> rcd_State d \<in> olds"
  shows "yields (knows spec others infos) (setDevicesState E rc st ty)
    (\<lambda>rc' w. rc' = withState st (infos ! k) \<and> knows spec others (infos[k := withState st (infos ! k)]) w)"
  unfolding yields_def
proof (intro allI impI)
  fix s rc' t
  assume kn: "knows spec others infos (wld s)" and run: "setDevicesState E rc st ty s = (Ok rc', t)"
  let ?v = "view (wld s)" and ?i = "infos ! k"
  from run obtain u where patch: "PatchResourceClaimDeviceConditions E (rci_Name rc) (rci_Namespace rc) ty s = (Ok (), t)"
    and rc': "rc' = withState st rc"
    by (auto simp: setDevicesState_def andThen_Ok ret_def)
  have "conditionsSet ty (infoIdent ?i) ?v (view (wld t))"
    using yieldsD [OF yields_conditions [of ?v] _ patch] rc(1) by (simp add: infoIdent_def)
  then obtain c where c: "c \<in> set (cl_claims ?v)" "ident c = infoIdent ?i"
    and effect: "statusDevices c = [] \<and> view (wld t) = ?v \<or>
      (\<exists>ds. updated ty (statusDevices c) ds \<and>
        callEffect (PatchClaimStatus (fst (infoIdent ?i)) (snd (infoIdent ?i)) ds) ?v (view (wld t)))"
    unfolding conditionsSet_def by blast
  have "st \<noteq> ''Preparing''" using ty by (auto simp: conditionFor_def)
  with kn k have sound: "sound others (infos[k := withState st ?i])" by (blast intro: sound_marked)
  from effect have "believes spec (set (infos[k := withState st ?i]) \<union> others) (cl_claims (view (wld t)))"
  proof
    assume none: "statusDevices c = [] \<and> view (wld t) = ?v"
    then have "boundResults c = []"
      by (auto simp: statusDevices_def boundResults_def split: if_splits option.splits)
    moreover have "describesClaim spec c ?i" using kn c k by (auto simp: believes_def)
    ultimately have "withState st ?i = ?i" by (simp add: describesClaim_def withState_def)
    then show ?thesis using kn none by simp
  next
    assume "\<exists>ds. updated ty (statusDevices c) ds \<and>
        callEffect (PatchClaimStatus (fst (infoIdent ?i)) (snd (infoIdent ?i)) ds) ?v (view (wld t))"
    then obtain ds where ds: "updated ty (statusDevices c) ds" and
      "cl_claims (view (wld t)) =
        changeBy (\<lambda>x. ident x = infoIdent ?i) (\<lambda>x. x\<lparr>rc_Devices := ds\<rparr>) (cl_claims ?v)"
      by (auto simp: ident_def infoIdent_def conj_commute)
    with believes_marked [OF _ k _ c ty ds st] kn show ?thesis by simp
  qed
  with sound rc' rc(2) show "rc' = withState st ?i \<and> knows spec others (infos[k := withState st ?i]) (wld t)" by simp
qed

subsection \<open>The failed pass\<close>

text \<open>Programs that do not touch claims.\<close>

lemma yields_no_claim_calls:
  assumes "replays E m" and "does (\<lambda>e. \<not> claimCall (fst e)) Q m"
  shows "yields (\<lambda>w. F (cl_claims (view w))) m (\<lambda>x w. Q x \<and> F (cl_claims (view w)))"
  unfolding yields_def
proof (intro allI impI)
  fix s x t
  assume F: "F (cl_claims (view (wld s)))" and run: "m s = (Ok x, t)"
  obtain new where new: "calls t = calls s @ new" "list_all (\<lambda>e. \<not> claimCall (fst e)) new"
    using doesD_calls [OF assms(2) run] by blast
  obtain new' where "calls t = calls s @ new'" "wld t = replay E new' (wld s)"
    using assms(1) run unfolding replays_def by (metis snd_conv)
  with new have "wld t = replay E new (wld s)" by simp
  moreover have "cl_claims (view (replay E new (wld s))) = cl_claims (view (wld s))"
    using new(2) refl
  proof (rule replay_invariant [where I = "\<lambda>v. cl_claims v = cl_claims (view (wld s))"])
    fix c ok a b
    assume "\<not> claimCall (fst (c, ok))" "callEffect c a b" "cl_claims a = cl_claims (view (wld s))"
    then show "cl_claims b = cl_claims (view (wld s))" by (cases c) auto
  qed
  ultimately show "Q x \<and> F (cl_claims (view (wld t)))" using F doesD_value [OF assms(2) run] by simp
qed

lemma yields_quietly:
  "replays E m \<Longrightarrow> does (\<lambda>e. \<not> claimCall (fst e)) Q m \<Longrightarrow>
   yields (knows spec others infos) m (\<lambda>x w. Q x \<and> knows spec others infos w)"
  using yields_no_claim_calls [where F = "\<lambda>claims. sound others infos \<and> believes spec (set infos \<union> others) claims"] .

lemma yields_failClaim:
  assumes "k < length infos" and "infos ! k = rc \<or> infos ! k = withState ''Failed'' rc" and "allPreparing rc"
  shows "yields (knows spec others infos) (failClaim E infos k rc)
    (\<lambda>infos' w. infos' = infos[k := withState ''Failed'' rc] \<and> knows spec others infos' w)"
proof -
  have rc: "infoIdent rc = infoIdent (infos ! k)" "withState ''Failed'' rc = withState ''Failed'' (infos ! k)"
    using assms(2) by auto
  have "rcd_State d \<in> {''Preparing'', ''Failed''}" if "d \<in> set (rci_Devices (infos ! k))" for d
    using assms(2,3) that by (auto simp: allPreparing_def list_all_iff withState_def)
  from yields_setDevicesState [OF assms(1) rc _ this, of "''FabricDeviceFailed''"] rc(2) show ?thesis
    unfolding failClaim_def
    by (intro yields_andThen yields_wrapErr) (auto intro!: yields_ret simp: conditionFor_def)
qed

text \<open>The checks of a device either leave the claims as they are or mark claims that wait.\<close>

lemma yields_failedDevice:
  assumes k: "k < length infos" "infos ! k = rc" and dev: "dev \<in> set (rci_Devices rc)"
  shows "yields (knows spec others infos) (failedDevice E spec requests resources k rc infos i dev)
    (\<lambda>(infos', next) w. knows spec others infos' w \<and> length infos' = length infos \<and>
       (\<not> next \<longrightarrow> infos' = infos \<and> rcd_State dev = ''Preparing''))"
proof -
  let ?R = "\<lambda>(infos', next) w. knows spec others infos' w \<and> length infos' = length infos \<and>
       (\<not> next \<longrightarrow> infos' = infos \<and> rcd_State dev = ''Preparing'')"
  have waits: "allPreparing c" if "sound others zs" "c \<in> set zs" "somePreparing c" for c zs
    using that by (auto simp: sound_def list_all_iff uniform_def)
  have fail: "yields (knows spec others zs) (failClaim E zs j c)
      (\<lambda>zs' w. zs' = zs[j := withState ''Failed'' c] \<and> knows spec others zs' w)"
    if "j < length zs" "zs ! j = c" "somePreparing c" for zs j c
    by (rule yields_assume, rule yields_weaken [OF yields_failClaim]) (use that waits [of zs c] in auto)
  show ?thesis
  proof (cases "rcd_State dev = ''Preparing''")
    case False
    then show ?thesis by (auto simp: failedDevice_def intro!: yields_ret)
  next
    case True
    with dev have rc: "somePreparing rc" by (auto simp: somePreparing_def list_ex_iff)
    have one: "yields (knows spec others infos) (andThen (failClaim E infos k rc) (\<lambda>infos'. ret (infos', True))) ?R"
      by (rule yields_andThen [OF fail [OF k rc]]) (auto intro!: yields_ret)
    have two: "yields (knows spec others infos) (andThen (failClaim E infos k rc) (\<lambda>infos'.
        andThen (failClaim E infos' j (infos ! j)) (\<lambda>infos''. ret (infos'', True)))) ?R"
      if j: "j < length infos" and conf: "claimConflict spec rc dev (infos ! j)" for j
    proof (rule yields_andThen [OF fail [OF k rc]], rule yields_assume)
      fix infos'
      assume infos': "infos' = infos[k := withState ''Failed'' rc]"
      from conf have "infos ! j \<noteq> rc" and some: "somePreparing (infos ! j)"
        by (auto simp: claimConflict_def somePreparing_def list_ex_iff)
      with k have "j \<noteq> k" by auto
      with infos' j have "j < length infos'" "infos' ! j = infos ! j" by simp_all
      then show "yields (knows spec others infos')
          (andThen (failClaim E infos' j (infos ! j)) (\<lambda>infos''. ret (infos'', True))) ?R"
        by (intro yields_andThen [OF fail [OF _ _ some]]) (auto intro!: yields_ret simp: infos')
    qed
    show ?thesis
      unfolding failedDevice_def
      by (intro yields_if yields_case_option one two yields_ret) (use True in \<open>auto simp: find_Some_iff\<close>)
  qed
qed

lemma yields_failedDevices:
  assumes k: "k < length infos" "infos ! k = rc"
  shows "set devs \<subseteq> set (rci_Devices rc) \<Longrightarrow>
    yields (knows spec others infos) (failedDevices E spec requests resources k rc infos i devs)
      (\<lambda>(infos', next) w. knows spec others infos' w \<and> length infos' = length infos \<and>
         (\<not> next \<longrightarrow> infos' = infos \<and> list_all (\<lambda>d. rcd_State d = ''Preparing'') devs))"
proof (induction devs arbitrary: i)
  case (Cons dev devs)
  then have dev: "dev \<in> set (rci_Devices rc)" and devs: "set devs \<subseteq> set (rci_Devices rc)" by auto
  show ?case
    unfolding failedDevices.simps
  proof (rule yields_andThen [OF yields_failedDevice [OF k dev]], rule yields_case_prod)
    fix x :: "ResourceClaimInfo list \<times> bool" and infos' nxt
    assume x: "x = (infos', nxt)"
    show "yields ((\<lambda>(infos', next) w. knows spec others infos' w \<and> length infos' = length infos \<and>
        (\<not> next \<longrightarrow> infos' = infos \<and> rcd_State dev = ''Preparing'')) x)
      (if nxt then ret (infos', True) else failedDevices E spec requests resources k rc infos' (Suc i) devs)
      (\<lambda>(infos', next) w. knows spec others infos' w \<and> length infos' = length infos \<and>
         (\<not> next \<longrightarrow> infos' = infos \<and> list_all (\<lambda>d. rcd_State d = ''Preparing'') (dev # devs)))"
    proof (cases nxt)
      case True
      then show ?thesis by (auto simp: x intro!: yields_ret)
    next
      case False
      have "yields (\<lambda>w. (infos' = infos \<and> rcd_State dev = ''Preparing'') \<and> knows spec others infos w)
          (failedDevices E spec requests resources k rc infos' (Suc i) devs)
          (\<lambda>(infos', next) w. knows spec others infos' w \<and> length infos' = length infos \<and>
             (\<not> next \<longrightarrow> infos' = infos \<and> list_all (\<lambda>d. rcd_State d = ''Preparing'') (dev # devs)))"
        by (rule yields_assume, simp only:, rule yields_weaken [OF Cons.IH [OF devs, of "Suc i"]]) auto
      then show ?thesis using False by (auto simp: x elim!: yields_weaken)
    qed
  qed
qed (auto intro!: yields_ret)

lemma yields_failedClaim:
  assumes k: "k < length infos"
  shows "yields (knows spec others infos) (failedClaim E node slices spec requests resources infos k)
    (\<lambda>infos' w. knows spec others infos' w \<and> length infos' = length infos)"
proof -
  let ?rc = "infos ! k"
  let ?I = "\<lambda>zs w. knows spec others zs w \<and> length zs = length infos \<and> (zs ! k = ?rc \<or> zs ! k = withState ''Failed'' ?rc)"
  have step: "yields (?I zs) (limitStep E node slices k ?rc zs entry) ?I" if all: "allPreparing ?rc" for zs entry
    unfolding limitStep_def
  proof (rule yields_andThen)
    show "yields (?I zs) (wrapErr ''failed to get configured device count''
        (GetConfiguredDeviceCount E (fst entry) (ni_Name node) zs slices)) (\<lambda>_. ?I zs)"
      by (intro yields_wrapErr yields_weaken [OF yields_silent [OF replays_counts(1) emits_GetConfiguredDeviceCount]]) auto
    show "yields (?I zs) (if fst (GetModelLimit node (fst entry)) < cnt then failClaim E zs k ?rc else ret zs) ?I" for cnt
    proof (rule yields_if)
      have "yields (\<lambda>w. (length zs = length infos \<and> (zs ! k = ?rc \<or> zs ! k = withState ''Failed'' ?rc)) \<and> knows spec others zs w)
          (failClaim E zs k ?rc) ?I"
        by (rule yields_assume, rule yields_weaken [OF yields_failClaim [OF _ _ all]]) (use k in auto)
      then show "yields (?I zs) (failClaim E zs k ?rc) ?I" by (rule yields_weaken) auto
    qed (auto intro!: yields_ret)
  qed
  show ?thesis
    unfolding failedClaim_def
  proof (rule yields_andThen [OF yields_failedDevices [OF k refl order_refl]], rule yields_case_prod)
    fix x :: "ResourceClaimInfo list \<times> bool" and infos' nxt
    assume x: "x = (infos', nxt)"
    show "yields ((\<lambda>(infos', next) w. knows spec others infos' w \<and> length infos' = length infos \<and>
        (\<not> next \<longrightarrow> infos' = infos \<and> list_all (\<lambda>d. rcd_State d = ''Preparing'') (rci_Devices ?rc))) x)
      (if nxt then ret infos'
       else andThen (rangeOrder E (getUniqueModelsWithCounts ?rc)) (\<lambda>modelMap. foldM (limitStep E node slices k ?rc) infos' modelMap))
      (\<lambda>infos' w. knows spec others infos' w \<and> length infos' = length infos)"
    proof (cases nxt)
      case True
      then show ?thesis by (auto simp: x intro!: yields_ret)
    next
      case False
      have "yields (\<lambda>w. (infos' = infos \<and> allPreparing ?rc) \<and> knows spec others infos' w)
          (andThen (rangeOrder E (getUniqueModelsWithCounts ?rc)) (\<lambda>modelMap. foldM (limitStep E node slices k ?rc) infos' modelMap)) ?I"
      proof (rule yields_assume, rule yields_andThen [where R = "\<lambda>_. ?I infos'"])
        assume infos': "infos' = infos \<and> allPreparing ?rc"
        show "yields (knows spec others infos') (rangeOrder E (getUniqueModelsWithCounts ?rc)) (\<lambda>_. ?I infos')"
          by (rule yields_weaken [OF yields_silent [OF replays_reads(11) emits_rangeOrder]]) (use infos' in auto)
        show "yields (?I infos') (foldM (limitStep E node slices k ?rc) infos' modelMap) ?I" for modelMap
          by (rule yields_foldM, rule step) (use infos' in simp)
      qed
      then show ?thesis
        unfolding if_not_P [OF False] by (rule yields_weaken) (use False in \<open>auto simp: x allPreparing_def\<close>)
    qed
  qed
qed

lemma yields_skip:
  assumes "replays E m" and "silent m" and "\<And>x. yields P (f x) S"
  shows "yields P (andThen m f) S"
  by (rule yields_andThen [OF yields_silent [OF assms(1,2), of P]]) (simp add: assms(3))

lemma sound_perm: "sound others infos \<Longrightarrow> mset ys = mset infos \<Longrightarrow> sound others ys"
  unfolding sound_def list_all_iff by (metis mset_eq_imp_distinct_iff mset_map set_mset_mset)

lemma yields_sortByTime:
  "yields (knows spec others infos) (sortByTime E infos order)
     (\<lambda>ys w. mset ys = mset infos \<and> knows spec others ys w)"
proof -
  have "does (\<lambda>_. False) (\<lambda>ys. mset ys = mset infos) (sortByTime E infos order)"
    unfolding sortByTime_def by (intro does_rules) simp
  from yields_silent [OF replays_sortByTime this, of "knows spec others infos"] show ?thesis
    by (rule yields_weaken) (auto intro: sound_perm dest: mset_eq_setD)
qed

lemma yields_pass:
  assumes step: "\<And>zs k. k < length zs \<Longrightarrow>
      yields (knows spec others zs) (f zs k) (\<lambda>zs' w. knows spec others zs' w \<and> length zs' = length zs)"
  shows "yields (knows spec others infos) (andThen (sortByTime E infos order) (\<lambda>sorted. foldM f sorted [0..<length sorted]))
    (\<lambda>zs. knows spec others zs)"
proof (rule yields_andThen [OF yields_sortByTime], rule yields_assume)
  fix ys :: "ResourceClaimInfo list"
  let ?I = "\<lambda>zs w. length zs = length ys \<and> knows spec others zs w"
  have "yields (?I ys) (foldM f ys [0..<length ys]) ?I"
  proof (rule yields_foldM, rule yields_assume)
    fix zs :: "ResourceClaimInfo list" and k
    assume "k \<in> set [0..<length ys]" "length zs = length ys"
    then show "yields (knows spec others zs) (f zs k) ?I"
      by (intro yields_weaken [OF step [of k zs]]) auto
  qed
  then show "yields (knows spec others ys) (foldM f ys [0..<length ys]) (\<lambda>zs. knows spec others zs)"
    by (rule yields_weaken) auto
qed

lemma yields_failed_pass:
  "yields (knows spec others infos) (RescheduleFailedNotification E node infos slices spec) (\<lambda>zs. knows spec others zs)"
  unfolding RescheduleFailedNotification_def
  by (intro yields_skip replay_rules does_rules yields_pass yields_failedClaim)

subsection \<open>The reschedule pass\<close>

lemma yields_notifyClaim:
  assumes k: "k < length infos"
  shows "yields (knows spec others infos) (notifyClaim E slices lp d resources infos k)
    (\<lambda>infos' w. knows spec others infos' w \<and> length infos' = length infos)"
proof (cases "list_ex (\<lambda>d. rcd_State d \<noteq> ''Preparing'') (rci_Devices (infos ! k))")
  case True
  then show ?thesis by (auto simp: notifyClaim_def intro!: yields_ret)
next
  case False
  let ?rc = "infos ! k" and ?new = "infos[k := withState ''Reschedule'' (infos ! k)]"
  have "rcd_State d \<in> {''Preparing''}" if "d \<in> set (rci_Devices ?rc)" for d
    using False that by (auto simp: list_ex_iff)
  from yields_setDevicesState [OF k refl refl _ this, of "''FabricDeviceReschedule''" "''Reschedule''" others spec]
  have mark: "yields (knows spec others infos) (setDevicesState E ?rc ''Reschedule'' ''FabricDeviceReschedule'')
      (\<lambda>rc' w. rc' = withState ''Reschedule'' ?rc \<and> knows spec others ?new w)"
    by (simp add: conditionFor_def)
  have annotate: "yields (knows spec others ?new) (annotateMatched E lp m) (\<lambda>_. knows spec others ?new)" for m
    by (rule yields_weaken [OF yields_quietly [OF _ emits_annotateMatched]])
      (auto intro!: replay_rules simp: annotateMatched_def)
  have notify: "yields (knows spec others infos)
      (andThen (wrapErr ''failed to set devices state'' (setDevicesState E ?rc ''Reschedule'' ''FabricDeviceReschedule''))
        (\<lambda>rc'. andThen (annotateMatched E lp m) (\<lambda>_. ret (infos[k := rc']))))
      (\<lambda>infos' w. knows spec others infos' w \<and> length infos' = length infos)" for m
    by (rule yields_andThen [OF yields_wrapErr [OF mark]], rule yields_assume, rule yields_andThen [OF annotate])
      (auto intro!: yields_ret)
  show ?thesis
    unfolding notifyClaim_def Let_def if_not_P [OF False]
    by (intro yields_skip replay_rules does_rules yields_case_option notify yields_ret) simp_all
qed

lemma yields_reschedule_pass:
  "yields (knows spec others infos) (RescheduleNotification E infos slices lp d) (\<lambda>zs. knows spec others zs)"
  unfolding RescheduleNotification_def
  by (intro yields_skip replay_rules does_rules yields_if yields_ret yields_pass yields_notifyClaim)

end

subsection \<open>The nodes\<close>

lemma shareDevices_idents: "map infoIdent (shareDevices claims infos) = map infoIdent infos"
  by (auto simp: shareDevices_def infoIdent_def split: option.split)

lemma sound_filter:
  assumes "sound {} infos"
  shows "sound (set (filter (\<lambda>c. \<not> p c) infos)) (filter p infos)"
proof -
  have "inj_on infoIdent (set infos)" using assms by (auto simp: sound_def distinct_map)
  then have "infoIdent ` set (filter p infos) \<inter> infoIdent ` set (filter (\<lambda>c. \<not> p c) infos) = {}"
    by (auto dest: inj_onD)
  with assms show ?thesis by (auto simp: sound_def distinct_map_filter list_all_iff)
qed

lemma sound_shared:
  assumes "sound {} infos" and "sound others claims" and "others \<subseteq> set infos"
    and "set (shareDevices claims infos) \<subseteq> set claims \<union> others"
  shows "sound {} (shareDevices claims infos)"
  using assms by (simp add: sound_def shareDevices_idents list_all_iff) blast

lemma deviceEvent_no_claim: "deviceEvent node requests device e \<Longrightarrow> \<not> claimCall (fst e)"
  by (cases "fst e") (auto simp: deviceEvent_def Let_def)

context faithful_api
begin

lemma yields_handleNode:
  "yields (\<lambda>w. distinct (map rci_arr infos) \<and> knows spec {} infos w) (handleNode E r slices spec infos node)
     (\<lambda>infos' w. distinct (map rci_arr infos') \<and> knows spec {} infos' w)"
proof (rule yields_assume)
  assume dist: "distinct (map rci_arr infos)"
  let ?p = "\<lambda>c. rci_NodeName c = ni_Name node"
  let ?zs = "filter ?p infos" and ?os = "set (filter (\<lambda>c. \<not> ?p c) infos)"
  have sets: "set ?zs \<union> ?os = set infos" by auto
  have start: "yields (\<lambda>w. sound {} infos \<and> knows spec ?os ?zs w) m R \<Longrightarrow> yields (knows spec {} infos) m R" for m R
    by (erule yields_weaken) (auto intro: sound_filter simp only: sets Un_empty_right)
  have fp: "yields (knows spec ?os ?zs) (RescheduleFailedNotification E node ?zs slices spec)
      (\<lambda>zs w. passed (ni_Name node) ?zs zs \<and> knows spec ?os zs w)"
    by (rule yields_does [OF yields_failed_pass does_failed_passed]) simp
  have np: "yields (knows spec ?os zs) (RescheduleNotification E zs slices (sp_LabelPrefix spec) (r_DeviceNoAllocation r))
      (\<lambda>zs' w. passed (ni_Name node) ?zs zs' \<and> knows spec ?os zs' w)" if "passed (ni_Name node) ?zs zs" for zs
    by (rule yields_weaken [OF yields_does [OF yields_reschedule_pass does_notify_passed [of zs "ni_Name node"]]])
      (use passed_node [OF that] passed_trans [OF that] in auto)
  have hd: "yields (knows spec ?os zs) (handleDevices E r node zs slices spec) (\<lambda>_. knows spec ?os zs)" for zs
    by (rule yields_weaken [OF yields_quietly [OF replays_node(1) does_weaken [OF does_handleDevices_calls]]])
      (auto dest: deviceEvent_no_claim)
  have ul: "yields (knows spec ?os zs) (UpdateNodeLabel E node spec) (\<lambda>_. knows spec ?os zs)" for zs
    by (rule yields_weaken [OF yields_quietly [OF replays_node(2), where Q = "\<lambda>_. True"]])
      (auto simp: UpdateNodeLabel_def Let_def intro!: does_rules)
  have "knows spec {} (shareDevices zs infos) w \<and> distinct (map rci_arr (shareDevices zs infos))"
    if "sound {} infos" "passed (ni_Name node) ?zs zs" "knows spec ?os zs w" for zs w
  proof -
    note sub = shareDevices_set [OF dist that(2)]
    then have "believes spec (set (shareDevices zs infos) \<union> {}) (cl_claims (view w))"
      using that(3) believes_subset by auto
    with sound_shared [OF that(1) _ _ sub] that(3) dist show ?thesis by (auto simp: shareDevices_arrs)
  qed
  then show "yields (knows spec {} infos) (handleNode E r slices spec infos node)
     (\<lambda>infos' w. distinct (map rci_arr infos') \<and> knows spec {} infos' w)"
    unfolding handleNode_def
    by (intro start yields_assume yields_andThen [OF yields_wrapErr [OF fp]] yields_andThen [OF yields_wrapErr [OF np]]
        yields_andThen [OF yields_wrapErr [OF hd]] yields_andThen [OF yields_wrapErr [OF ul]] yields_ret) auto
qed

lemma yields_handleNodes:
  "yields (\<lambda>w. distinct (map rci_arr infos) \<and> knows spec {} infos w) (handleNodes E r nodes infos slices spec)
     (\<lambda>infos' w. distinct (map rci_arr infos') \<and> knows spec {} infos' w)"
  unfolding handleNodes_def by (rule yields_foldM) (rule yields_handleNode)

end

section \<open>The next collection\<close>

text \<open>A record is determined by the claim it describes.\<close>

lemma describesDevice_unique: "describesDevice spec c a d \<Longrightarrow> describesDevice spec c a d' \<Longrightarrow> d = d'"
  by (cases d; cases d') (simp add: describesDevice_def)

lemma describesClaim_unique:
  assumes "describesClaim spec c i" and "describesClaim spec c i'" and "rci_arr i = rci_arr i'"
  shows "i = i'"
proof -
  have "rci_Devices i = rci_Devices i'"
    using assms(1,2) unfolding describesClaim_def list_all2_conv_all_nth
    by (intro nth_equalityI) (auto, metis describesDevice_unique)
  with assms show ?thesis by (cases i; cases i') (simp add: describesClaim_def)
qed

text \<open>Claims that differ in their status entries only.\<close>

definition sameButStatus :: "ResourceClaim \<Rightarrow> ResourceClaim \<Rightarrow> bool" where
  "sameButStatus c c' \<longleftrightarrow> c' = c\<lparr>rc_Devices := rc_Devices c'\<rparr>"

lemma sameButStatus_ident: "sameButStatus c c' \<Longrightarrow> ident c' = ident c"
  by (cases c; cases c') (simp add: sameButStatus_def ident_def)

lemma claimInfo_status:
  assumes "claimInfo spec ss n c = Ok r" and "sameButStatus c c'"
  shows "\<exists>r'. claimInfo spec ss n c' = Ok r' \<and> (r' = None \<longleftrightarrow> r = None)"
proof -
  obtain ds where c': "c' = c\<lparr>rc_Devices := ds\<rparr>" using assms(2) unfolding sameButStatus_def by blast
  have again: "\<exists>xs'. mapO (claimDevice spec ss c') as = Ok xs' \<and> (xs' = [] \<longleftrightarrow> xs = [])"
    if "mapO (claimDevice spec ss c) as = Ok xs" for as xs
  proof -
    let ?f = "\<lambda>a d. d\<lparr>rcd_State := deviceState ds a\<rparr>"
    have "list_all2 (\<lambda>a d. claimDevice spec ss c' a = Ok d) as (map2 ?f as xs)"
      using that unfolding mapO_Ok by (induction as xs rule: list_all2_induct) (auto simp: claimDevice_def c')
    moreover have "map2 ?f as xs = [] \<longleftrightarrow> xs = []" using that by (auto simp: mapO_Ok dest: list_all2_lengthD)
    ultimately show ?thesis unfolding mapO_Ok by blast
  qed
  show ?thesis
    using assms(1) again
    by (cases "rc_Allocation c") (auto simp: claimInfo_def c' split: if_splits; fastforce)+
qed

lemma claimInfos_again:
  assumes "claimInfos spec ss n claims = Ok infos" and "list_all2 sameButStatus claims claims'"
    and "nodeSteps ns infos infos'"
    and "\<And>i c. i \<in> set infos' \<Longrightarrow> c \<in> set claims' \<Longrightarrow> ident c = infoIdent i \<Longrightarrow> describesClaim spec c i"
  shows "claimInfos spec ss n claims' = Ok infos'"
  using assms
proof (induction claims arbitrary: n infos claims' infos')
  case Nil
  then show ?case by (simp add: nodeSteps_def)
next
  case (Cons c claims)
  from Cons.prems(2) obtain c' cs' where claims': "claims' = c' # cs'"
    and same: "sameButStatus c c'" "list_all2 sameButStatus claims cs'" by (auto simp: list_all2_Cons1)
  from Cons.prems(1) obtain r where r: "claimInfo spec ss n c = Ok r" by auto
  obtain r' where r': "claimInfo spec ss n c' = Ok r'" "r' = None \<longleftrightarrow> r = None"
    using claimInfo_status [OF r same(1)] by blast
  show ?case
  proof (cases r)
    case None
    with Cons.prems r have "claimInfos spec ss n claims = Ok infos" by simp
    with Cons.IH [OF this same(2) Cons.prems(3)] Cons.prems(4) claims' r' None show ?thesis by simp
  next
    case (Some i)
    with Cons.prems(1) r obtain js where js: "claimInfos spec ss (Suc n) claims = Ok js" "infos = i # js" by auto
    with Cons.prems(3) obtain i' js' where i': "infos' = i' # js'" "nodeStep ns i i'" "nodeSteps ns js js'"
      by (auto simp: nodeSteps_def list_all2_Cons1)
    from r' Some obtain k where k: "claimInfo spec ss n c' = Ok (Some k)" by auto
    have ki: "describesClaim spec c i" "rci_arr i = n" "describesClaim spec c' k" "rci_arr k = n"
      using claimInfo_Ok [OF r] claimInfo_Ok [OF k] Some by auto
    have "ident c' = infoIdent i'"
      using ki(1) sameButStatus_ident [OF same(1)] nodeStep_simps(2,3) [OF i'(2)]
      by (simp add: describesClaim_def ident_def infoIdent_def)
    with Cons.prems(4) claims' i' have "describesClaim spec c' i'" by simp
    then have "k = i'" using ki nodeStep_simps(1) [OF i'(2)] by (intro describesClaim_unique) auto
    with k js i' claims' Cons.IH [OF js(1) same(2) i'(3)] Cons.prems(4) show ?thesis by simp
  qed
qed

lemma callEffect_claims:
  "callEffect c v v' \<Longrightarrow> list_all2 sameButStatus (cl_claims v) (cl_claims v') \<and> cl_slices v' = cl_slices v"
  by (cases c) (auto simp: sameButStatus_def changeBy_def list_all2_conv_all_nth)

lemma sameButStatus_trans: "sameButStatus a b \<Longrightarrow> sameButStatus b c \<Longrightarrow> sameButStatus a c"
  by (cases a; cases b; cases c) (simp add: sameButStatus_def)

lemma believes_collected:
  assumes "claimInfos spec ss n claims = Ok infos" and "distinct (map ident claims)"
  shows "believes spec (set infos) claims \<and> distinct (map infoIdent infos)"
proof -
  have desc: "list_all2 (describesClaim spec) (filter tracked claims) infos" using claimInfos_Ok [OF assms(1)] by blast
  then have ids: "map infoIdent infos = map ident (filter tracked claims)"
    by (induction rule: list_all2_induct) (auto simp: describesClaim_def ident_def infoIdent_def)
  have "describesClaim spec c i" if i: "i \<in> set infos" and c: "c \<in> set claims" "ident c = infoIdent i" for i c
  proof -
    from desc i obtain c0 where c0: "c0 \<in> set claims" "describesClaim spec c0 i"
      by (metis filter_is_subset in_set_conv_nth list_all2_conv_all_nth subsetD)
    then have "ident c0 = ident c" using c(2) by (simp add: describesClaim_def ident_def infoIdent_def)
    with assms(2) c0 c(1) show ?thesis by (metis distinct_map inj_onD)
  qed
  with ids assms(2) show ?thesis by (simp add: believes_def distinct_map_filter)
qed

context faithful_api
begin

lemma GetResourceClaimInfo_run:
  "GetResourceClaimInfo E spec s = (claimInfos spec (cl_slices (view (wld s))) 0 (cl_claims (view (wld s))), s)"
  by (simp add: GetResourceClaimInfo_def run_simps readOp_def list_claims_stored list_slices_stored andThen_def
      wrapErr_def lift_def)

lemma handleNodes_recollected:
  assumes get: "fst (GetResourceClaimInfo E spec s) = Ok infos"
    and dist: "distinct (map ident (cl_claims (view (wld s))))" and uni: "list_all uniform infos"
    and run: "handleNodes E r nodes infos slices spec s = (Ok infos', t)"
  shows "fst (GetResourceClaimInfo E spec t) = Ok infos'"
proof -
  let ?v = "view (wld s)" and ?v' = "view (wld t)"
  have info: "claimInfos spec (cl_slices ?v) 0 (cl_claims ?v) = Ok infos" using get by (simp add: GetResourceClaimInfo_run)
  have wf: "wf_infos infos" by (rule claimInfos_wf [OF info])
  have "distinct (map rci_arr infos) \<and> knows spec {} infos (wld s)"
    using believes_collected [OF info dist] wf uni by (simp add: sound_def wf_infos_def)
  from yieldsD [OF yields_handleNodes this run] have bel: "believes spec (set infos') (cl_claims ?v')" by simp
  have steps: "nodeSteps (ni_Name ` set nodes) infos infos'"
    by (rule doesD_value [OF does_handleNodes [OF wf] run])
  obtain new where new: "wld t = replay E new (wld s)"
    using replays_handleNodes [of r nodes infos slices spec] run unfolding replays_def by (metis snd_conv)
  have "list_all2 sameButStatus (cl_claims ?v) (cl_claims ?v') \<and> cl_slices ?v' = cl_slices ?v"
    unfolding new
  proof (rule replay_invariant [where P = "\<lambda>_. True" and
        I = "\<lambda>v. list_all2 sameButStatus (cl_claims ?v) (cl_claims v) \<and> cl_slices v = cl_slices ?v"])
    show "list_all (\<lambda>_. True) new" by (simp add: list_all_iff)
    show "list_all2 sameButStatus (cl_claims ?v) (cl_claims ?v) \<and> cl_slices ?v = cl_slices ?v"
      by (simp add: list_all2_refl sameButStatus_def)
    fix c a b
    assume eff: "callEffect c a b" and a: "list_all2 sameButStatus (cl_claims ?v) (cl_claims a) \<and> cl_slices a = cl_slices ?v"
    note eff = callEffect_claims [OF eff]
    have "list_all2 sameButStatus (cl_claims ?v) (cl_claims b)"
      by (rule list_all2_trans [of sameButStatus sameButStatus sameButStatus, OF sameButStatus_trans
            conjunct1 [OF a] conjunct1 [OF eff]])
    with eff a show "list_all2 sameButStatus (cl_claims ?v) (cl_claims b) \<and> cl_slices b = cl_slices ?v" by simp
  qed
  with claimInfos_again [OF info _ steps] bel show ?thesis
    by (simp add: GetResourceClaimInfo_run believes_def)
qed

end

interpretation mem_faithful: faithful_api "memEnv infos" "\<lambda>w. w" for infos
proof unfold_locales
  fix ns n w c w'
  assume "getResourceClaim (memEnv infos) ns n w = (Inr c, w')"
  then show "c \<in> set (cl_claims w) \<and> ident c = (ns, n)"
    by (auto simp: lookupBy_def ident_def find_Some_iff split: option.splits)
qed simp_all

section \<open>Properties\<close>

text \<open>
  Property C11. What a reconciliation believes is what the next one reads: on a server that stores what
  it accepts, when claims have unique names and every collected claim waits with all its devices or
  with none, the claims as the passes over the nodes leave them in memory are exactly the claims that a collection
  then reads from the cluster, states, models, nodes and order included.
\<close>

theorem marks_read_back_by_next_collection:
  assumes "faithful_api E view" and "fst (GetResourceClaimInfo E spec s) = Ok infos"
    and "distinct (map ident (cl_claims (view (wld s))))" and "list_all uniform infos"
    and "handleNodes E r nodes infos slices spec s = (Ok infos', t)"
  shows "fst (GetResourceClaimInfo E spec t) = Ok infos'"
  using assms by (rule faithful_api.handleNodes_recollected)

theorem marks_read_back_by_next_collection_witness:
  "fst (GetResourceClaimInfo (memEnv sampleDevices) sampleSpec
     (snd (handleNodes (memEnv sampleDevices)
        \<lparr>r_ScanInterval = 60, r_DeviceNoRemoval = 600, r_DeviceNoAllocation = 60\<rparr> [sampleNode]
        [sampleInfo 0 ''c1'' 5 [''A40'']] [sampleSliceInfo] sampleSpec
        (sampleState [sampleClaim ''c1'' 5 ''a40-fabric1''] [sampleResource ''r0'' ''A40'' ''GPU-0''] [])))) =
   Ok [withState ''Reschedule'' (sampleInfo 0 ''c1'' 5 [''A40''])]"
proof -
  let ?E = "memEnv sampleDevices"
  let ?s = "sampleState [sampleClaim ''c1'' 5 ''a40-fabric1''] [sampleResource ''r0'' ''A40'' ''GPU-0''] []"
  let ?infos = "[sampleInfo 0 ''c1'' 5 [''A40'']]"
  let ?m = "handleNodes ?E \<lparr>r_ScanInterval = 60, r_DeviceNoRemoval = 600, r_DeviceNoAllocation = 60\<rparr> [sampleNode]
      ?infos [sampleSliceInfo] sampleSpec"
  have get: "fst (GetResourceClaimInfo ?E sampleSpec ?s) = Ok ?infos" by code_simp
  have dist: "distinct (map ident (cl_claims (wld ?s)))" by (simp add: sample_defs)
  have uni: "list_all uniform ?infos" by (simp add: uniform_def allPreparing_def sampleInfo_def)
  have "fst (?m ?s) = Ok [withState ''Reschedule'' (sampleInfo 0 ''c1'' 5 [''A40''])]" by code_simp
  from marks_read_back_by_next_collection [OF mem_faithful.faithful_api_axioms get dist uni run_eqI [OF this]]
  show ?thesis .
qed

text \<open>
  Only claims whose devices agree are read back as they were marked. A claim with a device that waits
  and one that was told to reschedule is failed as a whole when it exceeds a maximum; the second device
  then has both conditions, and the next collection reads the condition to reschedule.
\<close>

definition mixedClaim :: ResourceClaim where
  "mixedClaim =
     (sampleClaim ''c1'' 5 ''a40-fabric1'')\<lparr>
       rc_Allocation := Some \<lparr>al_Results = [sampleAllocated ''a40-fabric1'' ''device-0'', sampleAllocated ''h100-fabric2'' ''device-1''],
         al_NodeSelector = Some [\<lparr>nst_MatchFields =
           [\<lparr>nsr_Key = ''metadata.name'', nsr_Operator = ''In'', nsr_Values = [''n1'']\<rparr>]\<rparr>]\<rparr>,
       rc_Devices := [\<lparr>ads_Driver = ''gpu.nvidia.com'', ads_Pool = ''a40-fabric1'', ads_Device = ''device-0'', ads_Conditions = Some []\<rparr>,
         updateDevice (Nanos 7) ''FabricDeviceReschedule'' \<lparr>ads_Driver = ''gpu.nvidia.com'', ads_Pool = ''h100-fabric2'',
           ads_Device = ''device-1'', ads_Conditions = None\<rparr>]\<rparr>"

lemma mixed_claim_read_back_differently:
  "(let E = memEnv sampleDevices; r = \<lparr>r_ScanInterval = 60, r_DeviceNoRemoval = 600, r_DeviceNoAllocation = 60\<rparr>;
        states = (\<lambda>res. case res of Ok infos \<Rightarrow> map (map rcd_State \<circ> rci_Devices) infos | _ \<Rightarrow> []);
        s = sampleState [mixedClaim] [] []
    in case fst (GetResourceClaimInfo E sampleSpec s) of
         Ok infos \<Rightarrow>
           (let m = handleNodes E r [sampleNode] infos [sampleSliceInfo] sampleSpec s
            in states (Ok infos) = [[''Preparing'', ''Reschedule'']] \<and>
               states (fst m) = [[''Failed'', ''Failed'']] \<and>
               states (fst (GetResourceClaimInfo E sampleSpec (snd m))) = [[''Failed'', ''Reschedule'']])
       | _ \<Rightarrow> False)"
  by code_simp

end
