(* ===== verification/NodeLabels.thy ===== *)
theory NodeLabels
  imports Recollection
begin

text \<open>
  The labels of nodes in the cluster: what an update leaves on a server that applies the patches it
  accepts, and what all nodes have after a reconciliation. The latter does not ask that lists show
  what was just written, as a client that reads from a cache does not promise it: the labels are right
  for the requests and resources that were listed for the node's update, after the node's requests
  were made.
\<close>

section \<open>One node\<close>

text \<open>Labels that are right: a configured device is labelled unless it is excluded.\<close>

definition rightLabels ::
    "ComposableDRASpec \<Rightarrow> NodeInfo \<Rightarrow> ComposabilityRequest list \<Rightarrow> ComposableResource list \<Rightarrow>
     (string \<times> string) list \<Rightarrow> bool" where
  "rightLabels spec node requests resources ls \<longleftrightarrow>
     (\<forall>info\<in>set (sp_DeviceInfos spec).
        map_of ls (labelOf spec info) =
          (if \<exists>i\<in>set (sp_DeviceInfos spec). labelOf spec i = labelOf spec info \<and>
                excluded node spec requests resources (di_Index i)
           then None else Some ''true''))"

definition labelledBy ::
    "ComposableDRASpec \<Rightarrow> NodeInfo \<Rightarrow> ComposabilityRequest list \<Rightarrow> ComposableResource list \<Rightarrow> cluster \<Rightarrow> bool" where
  "labelledBy spec node requests resources v \<longleftrightarrow>
     (\<forall>x\<in>set (cl_nodes v). node_Name x = ni_Name node \<longrightarrow> rightLabels spec node requests resources (node_Labels x))"

text \<open>The cluster after the label update of a node.\<close>

definition relabelledBy ::
    "ComposableDRASpec \<Rightarrow> NodeInfo \<Rightarrow> ComposabilityRequest list \<Rightarrow> ComposableResource list \<Rightarrow> cluster \<Rightarrow> cluster \<Rightarrow> bool" where
  "relabelledBy spec node requests resources v v' \<longleftrightarrow>
     (\<exists>xs. v' = v\<lparr>cl_nodes := xs\<rparr> \<and> list_all2 (\<lambda>x x'. node_Name x' = node_Name x \<and>
        (if node_Name x = ni_Name node
         then labelsRight node spec requests resources (node_Labels x) (node_Labels x')
         else x' = x))
      (cl_nodes v) xs)"

definition relabelled :: "ComposableDRASpec \<Rightarrow> NodeInfo \<Rightarrow> cluster \<Rightarrow> cluster \<Rightarrow> bool" where
  "relabelled spec node v v' \<longleftrightarrow> relabelledBy spec node (cl_requests v) (cl_resources v) v v'"

lemma relabelledBy_labelledBy:
  assumes "relabelledBy spec node requests resources v v'"
  shows "labelledBy spec node requests resources v'"
  using assms unfolding relabelledBy_def
proof (elim exE conjE)
  fix xs
  assume v': "v' = v\<lparr>cl_nodes := xs\<rparr>"
    and xs: "list_all2 (\<lambda>x x'. node_Name x' = node_Name x \<and>
      (if node_Name x = ni_Name node
       then labelsRight node spec requests resources (node_Labels x) (node_Labels x')
       else x' = x)) (cl_nodes v) xs"
  have "rightLabels spec node requests resources (node_Labels x')" if x': "x' \<in> set xs" "node_Name x' = ni_Name node" for x'
  proof -
    from x' obtain i where i: "i < length xs" "x' = xs ! i" by (metis in_set_conv_nth)
    with list_all2_nthD2 [OF xs i(1)] x'(2)
    have "labelsRight node spec requests resources (node_Labels (cl_nodes v ! i)) (node_Labels x')" by simp
    then show ?thesis by (simp add: labelsRight_def rightLabels_def)
  qed
  then show ?thesis by (simp add: labelledBy_def v')
qed

text \<open>A server whose lists are what it stores.\<close>

locale listing_api = server_api E view +
    snapshot_api E "\<lambda>w. cl_claims (view w)" "\<lambda>w. cl_resources (view w)" "\<lambda>w. cl_requests (view w)"
  for E :: "'w env" and view :: "'w \<Rightarrow> cluster"

sublocale willing_api \<subseteq> listing_api
  by unfold_locales

lemma listing_memEnv: "listing_api (memEnv infos) (\<lambda>w. w)"
  by unfold_locales

interpretation mem_listing: listing_api "memEnv infos" "\<lambda>w. w" for infos
  by (rule listing_memEnv)

text \<open>A retried patch has the effect of its call when it succeeds, and none when it fails.\<close>

context server_api
begin

lemma patchOnce_effect:
  assumes "patchOnce E msg c s = (r, t)"
  shows "case r of Ok None \<Rightarrow> callEffect c (view (wld s)) (view (wld t)) | _ \<Rightarrow> view (wld t) = view (wld s)"
proof -
  obtain q w where q: "apply_call E c (wld s) = (q, w)" by fastforce
  with assms have "wld t = w" "r = Ok None \<longleftrightarrow> q = None"
    by (auto simp: patchOnce_def issue_def writeOp_def andThen_def ret_def raise_def split: option.splits if_splits)
  with accepted rejected q show ?thesis by (cases q) (auto split: outcome.split option.split)
qed

lemma retryLoop_effect:
  "retryLoop n (patchOnce E msg c) lastErr s = (r, t) \<Longrightarrow>
     case r of Ok _ \<Rightarrow> callEffect c (view (wld s)) (view (wld t)) | _ \<Rightarrow> view (wld t) = view (wld s)"
proof (induction n arbitrary: lastErr s)
  case 0
  then show ?case by (auto simp: raise_def)
next
  case (Suc n)
  obtain q u where q: "patchOnce E msg c s = (q, u)" by fastforce
  note step = patchOnce_effect [OF q]
  show ?case
  proof (cases q)
    case (Ok e)
    with Suc.prems Suc.IH [of e u] step q show ?thesis by (cases e; cases r) (auto simp: andThen_def ret_def)
  qed (use Suc.prems step q in \<open>auto simp: andThen_def\<close>)
qed

lemma patchNodeLabel_effect:
  fixes requests :: "ComposabilityRequest list" and resources :: "ComposableResource list"
  defines "ids \<equiv> \<lambda>node spec. notCoexistID (installedDevices (ni_Name node) requests resources) node spec"
  assumes "patchNodeLabel E (ni_Name node) (addLabels spec (ids node spec)) (deleteLabels spec (ids node spec)) s = (r, t)"
  shows "case r of Ok _ \<Rightarrow> relabelledBy spec node requests resources (view (wld s)) (view (wld t))
    | _ \<Rightarrow> view (wld t) = view (wld s)"
proof -
  let ?p = "labelsPatch (addLabels spec (ids node spec)) (deleteLabels spec (ids node spec))"
  have right: "labelsRight node spec requests resources ls (patchLabels ?p ls)" for ls
    unfolding ids_def by (rule intendedPatch_right [OF intendedPatch_computed distinct_labelsPatch])
  have "relabelledBy spec node requests resources v (snd (memApply (PatchNodeLabels (ni_Name node) ?p) v))" for v
    using right by (auto simp: relabelledBy_def changeBy_def list_all2_conv_all_nth)
  then show ?thesis
    using retryLoop_effect [OF assms(2) [unfolded patchNodeLabel_def]] by (simp split: outcome.splits)
qed

lemma UpdateNodeLabel_listed:
  assumes "UpdateNodeLabel E node spec s = (Ok x, t)"
  shows "\<exists>requests resources. fst (listComposabilityRequests E (wld s)) = Inr requests \<and>
    fst (listComposableResources E (wld s)) = Inr resources \<and>
    relabelledBy spec node requests resources (view (wld s)) (view (wld t))"
proof -
  let ?patch = "\<lambda>requests resources. patchNodeLabel E (ni_Name node)
    (addLabels spec (notCoexistID (installedDevices (ni_Name node) requests resources) node spec))
    (deleteLabels spec (notCoexistID (installedDevices (ni_Name node) requests resources) node spec))"
  from read_then_cases [OF assms [unfolded UpdateNodeLabel_def Let_def]] obtain requests s1 where
    first: "listComposabilityRequests E (wld s) = (Inr requests, wld s1)"
      "andThen (wrapErr ''failed to list ComposableResourceList'' (readOp (listComposableResources E))) (?patch requests) s1 = (Ok x, t)"
    by blast
  from read_then_cases [OF first(2)] obtain resources s2 where
    second: "listComposableResources E (wld s1) = (Inr resources, wld s2)" and patch: "?patch requests resources s2 = (Ok x, t)"
    by blast
  note reads = first(1) second
  have "wld s1 = wld s" "wld s2 = wld s1" using reads reads_only(1,2) by (metis snd_conv)+
  with reads patchNodeLabel_effect [OF patch] show ?thesis by auto
qed

end

context listing_api
begin

lemma UpdateNodeLabel_effect:
  assumes "UpdateNodeLabel E node spec s = (r, t)"
  shows "case r of Ok _ \<Rightarrow> relabelled spec node (view (wld s)) (view (wld t)) | _ \<Rightarrow> view (wld t) = view (wld s)"
  unfolding relabelled_def
  by (rule patchNodeLabel_effect) (use assms in \<open>simp add: UpdateNodeLabel_run labelIds_def\<close>)

end

section \<open>All nodes\<close>

text \<open>A run from one state to another, with its calls.\<close>

definition ran :: "'w env \<Rightarrow> event list \<Rightarrow> ('w, api_call) st \<Rightarrow> ('w, api_call) st \<Rightarrow> bool" where
  "ran E es s t \<longleftrightarrow> calls t = calls s @ es \<and> wld t = replay E es (wld s)"

lemma replays_ran: "replays E m \<Longrightarrow> m s = (r, t) \<Longrightarrow> \<exists>es. ran E es s t"
  unfolding replays_def ran_def by (metis snd_conv)

lemma ran_trans: "ran E es s t \<Longrightarrow> ran E es' t u \<Longrightarrow> ran E (es @ es') s u"
  by (simp add: ran_def)

lemma ran_calls: "ran E es s t \<Longrightarrow> calls t = calls s @ es' \<Longrightarrow> es' = es"
  by (simp add: ran_def)

text \<open>
  A node is labelled in a run: at some point of it the requests and resources were listed, no request for
  the node was made later, and the labels of the node at the end are right for these lists.
\<close>

fun createsFor :: "string \<Rightarrow> api_call \<Rightarrow> bool" where
  "createsFor n (CreateRequest g ty m sz n') = (n' = n)"
| "createsFor n c = False"

definition labelledIn ::
    "'w env \<Rightarrow> ('w \<Rightarrow> cluster) \<Rightarrow> ComposableDRASpec \<Rightarrow> ('w, api_call) st \<Rightarrow> ('w, api_call) st \<Rightarrow> NodeInfo \<Rightarrow> bool" where
  "labelledIn E view spec s t node \<longleftrightarrow>
     (\<exists>before after requests resources.
        calls t = calls s @ before @ after \<and>
        list_all (\<lambda>(c, ok). \<not> createsFor (ni_Name node) c) after \<and>
        fst (listComposabilityRequests E (replay E before (wld s))) = Inr requests \<and>
        fst (listComposableResources E (replay E before (wld s))) = Inr resources \<and>
        labelledBy spec node requests resources (view (wld t)))"

lemma labelledIn_before:
  assumes "ran E es s u" and "labelledIn E view spec u t node"
  shows "labelledIn E view spec s t node"
proof -
  from assms(2) obtain before after requests resources where
    "calls t = calls u @ before @ after" "list_all (\<lambda>(c, ok). \<not> createsFor (ni_Name node) c) after"
    "fst (listComposabilityRequests E (replay E before (wld u))) = Inr requests"
    "fst (listComposableResources E (replay E before (wld u))) = Inr resources"
    "labelledBy spec node requests resources (view (wld t))"
    unfolding labelledIn_def by blast
  with assms(1) show ?thesis
    unfolding labelledIn_def
    by (intro exI [of _ "es @ before"] exI [of _ after] exI [of _ requests] exI [of _ resources]) (simp add: ran_def)
qed

text \<open>What nodes handled later leave: the other nodes as they are.\<close>

definition sameNode :: "string \<Rightarrow> cluster \<Rightarrow> cluster \<Rightarrow> bool" where
  "sameNode n v v' \<longleftrightarrow> filter (\<lambda>x. node_Name x = n) (cl_nodes v') = filter (\<lambda>x. node_Name x = n) (cl_nodes v)"

lemma labelledBy_sameNode:
  assumes "sameNode (ni_Name node) v v'" and "labelledBy spec node requests resources v"
  shows "labelledBy spec node requests resources v'"
proof -
  have "set (filter (\<lambda>x. node_Name x = ni_Name node) (cl_nodes v')) = set (filter (\<lambda>x. node_Name x = ni_Name node) (cl_nodes v))"
    using assms(1) by (simp only: sameNode_def)
  with assms(2) show ?thesis unfolding labelledBy_def by (auto simp: set_eq_iff)
qed

lemma filter_changeBy_other:
  assumes "\<And>x. p x \<Longrightarrow> \<not> q x \<and> \<not> q (f x)"
  shows "filter q (changeBy p f xs) = filter q xs"
  using assms by (induction xs) (auto simp: changeBy_def)

lemma safeEvent_sameNode:
  assumes "safeEvent spec ids ns (c, ok)" and "callEffect c a b" and "n \<notin> ns"
  shows "sameNode n a b"
proof (cases c)
  case (PatchNodeLabels m p)
  with assms have "m \<noteq> n" by (auto simp: safeEvent_def)
  with assms(2) PatchNodeLabels show ?thesis by (auto simp: sameNode_def intro!: filter_changeBy_other)
qed (use assms(2) in \<open>auto simp: sameNode_def\<close>)

context server_api
begin

lemma handleNode_labels:
  assumes "handleNode E r slices spec infos node s = (Ok infos', t)"
  shows "labelledIn E view spec s t node"
proof -
  from assms obtain claims1 s1 claims2 s2 s3 y x where
    failed: "RescheduleFailedNotification E node (filter (\<lambda>c. rci_NodeName c = ni_Name node) infos) slices spec s = (Ok claims1, s1)"
    and notify: "RescheduleNotification E claims1 slices (sp_LabelPrefix spec) (r_DeviceNoAllocation r) s1 = (Ok claims2, s2)"
    and devices: "handleDevices E r node claims2 slices spec s2 = (Ok y, s3)"
    and labels: "UpdateNodeLabel E node spec s3 = (Ok x, t)"
    by (auto simp: handleNode_def andThen_Ok ret_def)
  from replays_ran [OF replays_failed_pass failed] replays_ran [OF replays_reschedule_pass notify]
    replays_ran [OF replays_node(1) devices]
  obtain before where before: "ran E before s s3" by (blast intro: ran_trans)
  have "emits (\<lambda>(c, ok). \<not> createsFor (ni_Name node) c) (UpdateNodeLabel E node spec)"
    by (auto simp: UpdateNodeLabel_def Let_def intro!: does_rules)
  from doesD_calls [where m = "UpdateNodeLabel E node spec", OF this labels]
  obtain after where after: "calls t = calls s3 @ after" "list_all (\<lambda>(c, ok). \<not> createsFor (ni_Name node) c) after"
    by blast
  from UpdateNodeLabel_listed [OF labels] obtain requests resources where
    "fst (listComposabilityRequests E (wld s3)) = Inr requests" "fst (listComposableResources E (wld s3)) = Inr resources"
    "relabelledBy spec node requests resources (view (wld s3)) (view (wld t))" by blast
  with before after relabelledBy_labelledBy show ?thesis
    unfolding labelledIn_def ran_def
    by (intro exI [of _ before] exI [of _ after] exI [of _ requests] exI [of _ resources]) auto
qed

lemma labelledIn_after:
  assumes "labelledIn E view spec s u node" and "wf_infos infos" and "ni_Name node \<notin> ni_Name ` set nodes"
    and run: "handleNodes E r nodes infos slices spec u = (res, t)"
  shows "labelledIn E view spec s t node"
proof -
  obtain es where es: "calls t = calls u @ es" "list_all (safeEvent spec (claimIds infos) (ni_Name ` set nodes)) es"
    using doesD_calls [OF does_handleNodes [OF assms(2)] run] by blast
  with replays_ran [OF replays_handleNodes run] have replayed: "wld t = replay E es (wld u)"
    by (auto simp: ran_def)
  have "sameNode (ni_Name node) (view (wld u)) (view (wld t))"
    unfolding replayed
  proof (rule replay_invariant [OF es(2), where I = "sameNode (ni_Name node) (view (wld u))"])
    show "sameNode (ni_Name node) (view (wld u)) (view (wld u))" by (simp add: sameNode_def)
    fix c ok a b
    assume "safeEvent spec (claimIds infos) (ni_Name ` set nodes) (c, ok)" "callEffect c a b"
      "sameNode (ni_Name node) (view (wld u)) a"
    with safeEvent_sameNode [of spec "claimIds infos" "ni_Name ` set nodes" c ok a b "ni_Name node"] assms(3)
    show "sameNode (ni_Name node) (view (wld u)) b" by (simp add: sameNode_def)
  qed
  moreover have "\<not> createsFor (ni_Name node) c" if "safeEvent spec ids (ni_Name ` set nodes) (c, ok)" for c ok ids
    using that assms(3) by (cases c) (auto simp: safeEvent_def image_iff)
  then have "list_all (\<lambda>(c, ok). \<not> createsFor (ni_Name node) c) es" using es(2) by (auto simp: list_all_iff)
  moreover obtain before after requests resources where
    "calls u = calls s @ before @ after" "list_all (\<lambda>(c, ok). \<not> createsFor (ni_Name node) c) after"
    "fst (listComposabilityRequests E (replay E before (wld s))) = Inr requests"
    "fst (listComposableResources E (replay E before (wld s))) = Inr resources"
    "labelledBy spec node requests resources (view (wld u))"
    using assms(1) unfolding labelledIn_def by blast
  ultimately show ?thesis
    unfolding labelledIn_def
    by (intro exI [of _ before] exI [of _ "after @ es"] exI [of _ requests] exI [of _ resources])
      (simp add: es(1) labelledBy_sameNode)
qed

lemma handleNodes_labels:
  "wf_infos infos \<Longrightarrow> distinct (map ni_Name nodes) \<Longrightarrow> handleNodes E r nodes infos slices spec s = (Ok infos', t) \<Longrightarrow>
     node \<in> set nodes \<Longrightarrow> labelledIn E view spec s t node"
proof (induction nodes arbitrary: infos s)
  case (Cons x nodes)
  from Cons.prems(3) obtain infos1 u where x: "handleNode E r slices spec infos x s = (Ok infos1, u)"
    and rest: "handleNodes E r nodes infos1 slices spec u = (Ok infos', t)"
    by (auto simp: handleNodes_def andThen_Ok)
  have "nodeSteps {ni_Name x} infos infos1" 
    by (rule doesD_value [OF does_handleNode [where ns = "{ni_Name x}"] x]) (use Cons.prems(1) in simp_all)
  then have wf: "wf_infos infos1" using Cons.prems(1) by (rule nodeSteps_wf)
  show ?case
  proof (cases "node = x")
    case True
    have "ni_Name x \<notin> ni_Name ` set nodes" using Cons.prems(2) by simp
    from labelledIn_after [OF handleNode_labels [OF x] wf this rest] True show ?thesis by simp
  next
    case False
    with Cons.prems have "labelledIn E view spec u t node" by (intro Cons.IH [OF wf _ rest]) auto
    moreover obtain es where "ran E es s u"
      using replays_ran [of E "handleNodes E r [x] infos slices spec" s] replays_handleNodes [of r "[x]" infos slices spec] x
      by (auto simp: handleNodes_def andThen_def ret_def)
    ultimately show ?thesis using labelledIn_before by blast
  qed
qed simp

lemma Reconcile_labels:
  assumes run: "Reconcile E r s = (Ok res, t)" and collected: "fst (collectInfo E s) = Ok (claims, slices, nodes, spec)"
    and "distinct (map ni_Name nodes)" and "node \<in> set nodes"
  shows "labelledIn E view spec s t node"
proof -
  obtain u where u: "collectInfo E s = (Ok (claims, slices, nodes, spec), u)" using collected by (metis prod.collapse)
  have wf: "wf_infos claims" using doesD_value [OF does_collectInfo u] by simp
  from run obtain y s1 infos' t' where touch: "updateComposableResourceLastUsedTime E slices (sp_LabelPrefix spec) u = (Ok y, s1)"
    and nodes: "handleNodes E r nodes claims slices spec s1 = (Ok infos', t')" and t: "t = t'"
    by (auto simp: Reconcile_def andThen_run(1) [of "collectInfo E", OF u] andThen_Ok ret_def)
  have "replays E (updateComposableResourceLastUsedTime E slices (sp_LabelPrefix spec))"
    unfolding updateComposableResourceLastUsedTime_def touchResource_def by (intro replay_rules)
  from replays_ran [OF this touch] replays_ran [OF replays_collect u] obtain es where "ran E es s s1"
    by (blast intro: ran_trans)
  then show ?thesis using handleNodes_labels [OF wf assms(3) nodes assms(4)] t by (simp add: labelledIn_before)
qed

end

text \<open>
  Property C22. On a server that applies the patches it accepts, whatever it rejects before, a label
  update that succeeds leaves the node with exactly the labels of the rule: the devices that may be
  scheduled there are labelled, the excluded ones are not, other labels, other nodes and everything else
  are unchanged; one that fails leaves the cluster as it was.
\<close>

theorem node_labels_after_update:
  assumes "listing_api E view" and "UpdateNodeLabel E node spec s = (r, t)"
  shows "case r of Ok _ \<Rightarrow> relabelled spec node (view (wld s)) (view (wld t)) | _ \<Rightarrow> view (wld t) = view (wld s)"
  using assms by (rule listing_api.UpdateNodeLabel_effect)

theorem node_labels_after_update_witness:
  "map (\<lambda>x. (map_of (node_Labels x) ''co.hdi/h100'', map_of (node_Labels x) ''co.hdi/a40'', map_of (node_Labels x) ''zone''))
     (cl_nodes (wld (snd (UpdateNodeLabel (memEnv []) sampleNode sampleSpec
        (sampleState [] [sampleResource ''r0'' ''A40'' ''GPU-0''] []))))) =
   [(None, Some ''true'', Some ''x'')]"
proof -
  let ?s = "sampleState [] [sampleResource ''r0'' ''A40'' ''GPU-0''] []"
  let ?x = "\<lparr>node_Name = ''n1'', node_Labels = sampleLabels\<rparr>"
  have ok: "fst (UpdateNodeLabel (memEnv []) sampleNode sampleSpec ?s) = Ok ()" by code_simp
  then obtain t where run: "UpdateNodeLabel (memEnv []) sampleNode sampleSpec ?s = (Ok (), t)" by (metis prod.collapse)
  have init: "cl_nodes (wld ?s) = [?x]" "ni_Name sampleNode = ''n1''"
    by (simp_all add: sampleState_def sampleCluster_def sampleNode_def)
  from node_labels_after_update [OF listing_memEnv run] init obtain x' where x': "cl_nodes (wld t) = [x']"
    "labelsRight sampleNode sampleSpec (cl_requests (wld ?s)) (cl_resources (wld ?s)) sampleLabels (node_Labels x')"
    by (auto simp: relabelled_def relabelledBy_def list_all2_Cons1)
  then show ?thesis
    unfolding run labelsRight_def
    by (simp add: sample_defs labelOf_def excluded_def modelPresent_def)
qed

text \<open>
  Property C8. On a server whose reads change nothing and which does what it accepts and nothing else, with
  unique names of the collected nodes, a reconciliation that completes leaves every collected node
  labelled: for each node there is a point of the run, after its requests were created, at which the
  requests and resources were listed, and at the end the node has a label for exactly those configured
  devices that its limits and the models requested or online on it in these lists allow. The lists may
  be out of date; nothing done for the other nodes spoils the labels.
\<close>

theorem nodes_labelled_after_reconcile:
  assumes "server_api E view" and "Reconcile E r s = (Ok res, t)"
    and "fst (collectInfo E s) = Ok (claims, slices, nodes, spec)" and "distinct (map ni_Name nodes)"
  shows "\<forall>node\<in>set nodes. labelledIn E view spec s t node"
  using server_api.Reconcile_labels [OF assms] by blast

theorem nodes_labelled_after_reconcile_witness:
  "labelledIn (memEnv sampleDevices) (\<lambda>w. w) sampleSpec (sampleState [sampleClaim ''c1'' 5 ''a40-fabric1''] [] [])
     (snd (Reconcile (memEnv sampleDevices)
        \<lparr>r_ScanInterval = 60, r_DeviceNoRemoval = 600, r_DeviceNoAllocation = 60\<rparr>
        (sampleState [sampleClaim ''c1'' 5 ''a40-fabric1''] [] []))) sampleNode"
proof -
  let ?E = "memEnv sampleDevices"
  let ?r = "\<lparr>r_ScanInterval = 60, r_DeviceNoRemoval = 600, r_DeviceNoAllocation = 60\<rparr>"
  let ?s = "sampleState [sampleClaim ''c1'' 5 ''a40-fabric1''] [] []"
  have ok: "fst (Reconcile ?E ?r ?s) = Ok \<lparr>res_RequeueAfter = 60\<rparr>" by code_simp
  have col: "fst (collectInfo ?E ?s) = Ok ([sampleInfo 0 ''c1'' 5 [''A40'']], [sampleSliceInfo], [sampleNode], sampleSpec)"
    by code_simp
  from nodes_labelled_after_reconcile [OF mem_server.server_api_axioms run_eqI [OF ok] col]
  show ?thesis by simp
qed

end
