(* ===== verification/Scaling.thy ===== *)
theory Scaling
  imports NodeLabels
begin

text \<open>
  The requests of a node, exactly: with a client that reads from a cache and a server that accepts,
  \<open>handleDevices\<close> makes the calls of a plan that is a function of what the cache shows, and no others. The
  effects of the calls are effects on the store; the cache may show them at once, later or in part.
\<close>

section \<open>A client with a cache\<close>

text \<open>What requests leave as it was, as far as a cache shows it.\<close>

definition sameSupply :: "cluster \<Rightarrow> cluster \<Rightarrow> bool" where
  "sameSupply v v' \<longleftrightarrow>
     cl_claims v' = cl_claims v \<and> cl_resources v' = cl_resources v \<and> cl_time v' = cl_time v \<and>
     req_Name ` set (cl_requests v) \<subseteq> req_Name ` set (cl_requests v')"

lemma sameSupply_refl: "sameSupply v v"
  by (simp add: sameSupply_def)

lemma sameSupply_trans: "sameSupply u v \<Longrightarrow> sameSupply v w \<Longrightarrow> sameSupply u w"
  by (auto simp: sameSupply_def)

fun requestCall :: "api_call \<Rightarrow> bool" where
  "requestCall (PatchRequestSize n sz) = True"
| "requestCall (CreateRequest g ty m sz n) = True"
| "requestCall c = False"

text \<open>
  Reads are answered from \<open>seen\<close>, calls work on \<open>store\<close>. A request that the server accepts leaves the
  claims, the resources and the time that the cache shows, and no request disappears from it; whether
  it shows the new request or size is left open.
\<close>

locale caching_api = server_api E store +
    quiet_api E "\<lambda>w. cl_claims (seen w)" "\<lambda>w. cl_resources (seen w)" "\<lambda>w. cl_requests (seen w)"
  for E :: "'w env" and store :: "'w \<Rightarrow> cluster" and seen :: "'w \<Rightarrow> cluster" +
  assumes clock_seen: "fst (clock E w) = cl_time (seen w)"
    and get_seen: "q \<in> set (cl_requests (seen w)) \<Longrightarrow> \<exists>q'. getComposabilityRequest E (req_Name q) w = (Inr q', w)"
    and accepts_all: "fst (apply_call E c w) = None"
    and requests_only: "requestCall c \<Longrightarrow> apply_call E c w = (r, w') \<Longrightarrow> sameSupply (seen w) (seen w')"

text \<open>The in-memory server shows every effect at once.\<close>

interpretation mem_caching: caching_api "memEnv infos" "\<lambda>w. w" "\<lambda>w. w" for infos
proof unfold_locales
  fix c w r w'
  assume "requestCall c" "apply_call (memEnv infos) c w = (r, w')"
  then show "sameSupply w w'" by (cases c) (auto simp: sameSupply_def image_changeBy)
next
  show "fst (apply_call (memEnv infos) c w) = None" for c w by (cases c) simp_all
qed (auto intro: lookupBy_found)

text \<open>A client whose cache shows no effect while the program runs: the store and the cache are two clusters.\<close>

definition laggingEnv :: "DeviceInfo list \<Rightarrow> (cluster \<times> cluster) env" where
  "laggingEnv infos =
     \<lparr>listComposabilityRequests = (\<lambda>w. (Inr (cl_requests (snd w)), w)),
      listComposableResources = (\<lambda>w. (Inr (cl_resources (snd w)), w)),
      listResourceSlices = (\<lambda>w. (Inr (cl_slices (snd w)), w)),
      listResourceClaims = (\<lambda>w. (Inr (cl_claims (snd w)), w)),
      listNodes = (\<lambda>w. (Inr (cl_nodes (snd w)), w)),
      getConfigMap = (\<lambda>_ _ w. (Inr (cl_config (snd w)), w)),
      getComposableResource = (\<lambda>n w. (lookupBy (\<lambda>x. cr_Name x = n) (cl_resources (snd w)), w)),
      getComposabilityRequest = (\<lambda>n w. (lookupBy (\<lambda>x. req_Name x = n) (cl_requests (snd w)), w)),
      getResourceClaim =
        (\<lambda>ns n w. (lookupBy (\<lambda>x. rc_Name x = n \<and> rc_Namespace x = ns) (cl_claims (snd w)), w)),
      apply_call = (\<lambda>c w. (None, (snd (memApply c (fst w)), snd w))),
      IsConflict = (\<lambda>e. e = ''conflict''),
      clock = (\<lambda>w. (cl_time (snd w), w)),
      choice = (\<lambda>w. (cl_order (snd w), w)),
      yamlDeviceInfos = (\<lambda>_. Inr infos),
      yamlInts = (\<lambda>_. Inr []),
      parseRFC3339 = parseStamp,
      formatRFC3339 = (\<lambda>t. showInt (nanos t)),
      unicodeLetter = (\<lambda>_. False),
      unicodeDigit = (\<lambda>_. False)\<rparr>"

interpretation lagging: caching_api "laggingEnv infos" fst snd for infos
proof unfold_locales
  fix c :: api_call and w w' :: "cluster \<times> cluster"
  assume "apply_call (laggingEnv infos) c w = (None, w')"
  then show "callEffect c (fst w) (fst w')" by (cases c) (auto simp: laggingEnv_def)
qed (auto simp: laggingEnv_def sameSupply_refl intro: lookupBy_found)

section \<open>The plan\<close>

definition wantedCount ::
    "cluster \<Rightarrow> NodeInfo \<Rightarrow> ResourceClaimInfo list \<Rightarrow> ResourceSliceInfo list \<Rightarrow> DeviceInfo \<Rightarrow> int" where
  "wantedCount v node infos slices device =
     max (configuredCount (cl_claims v) (cl_resources v) infos slices (di_CDIModelName device) (ni_Name node))
       (snd (GetModelLimit node (di_CDIModelName device)))"

definition recentCount :: "'w env \<Rightarrow> cluster \<Rightarrow> string \<Rightarrow> string \<Rightarrow> int \<Rightarrow> int" where
  "recentCount E v n lp d =
     int (length (filter (\<lambda>r. keepsDevice n r \<and> recentlyUsed E (cl_time v) lp d r) (cl_resources v)))"

definition plannedCalls ::
    "'w env \<Rightarrow> cluster \<Rightarrow> ResourceMonitorReconciler \<Rightarrow> NodeInfo \<Rightarrow> ResourceClaimInfo list \<Rightarrow>
     ResourceSliceInfo list \<Rightarrow> ComposableDRASpec \<Rightarrow> DeviceInfo \<Rightarrow> api_call list" where
  "plannedCalls E v r node infos slices spec device =
     (let wanted = wantedCount v node infos slices device;
          kept = max wanted (recentCount E v (ni_Name node) (sp_LabelPrefix spec) (r_DeviceNoRemoval r))
      in case find (\<lambda>q. req_Model q = di_CDIModelName device \<and> req_TargetNode q = ni_Name node) (cl_requests v) of
           Some q \<Rightarrow>
             if req_Size q < wanted then [PatchRequestSize (req_Name q) wanted]
             else if kept < req_Size q then [PatchRequestSize (req_Name q) kept]
             else []
         | None \<Rightarrow>
             if 0 < wanted
             then [CreateRequest ''composability-'' (GetDriverType (di_DriverName device)) (di_CDIModelName device)
                     wanted (ni_Name node)]
             else [])"

text \<open>The clusters that the accepted calls of a list lead to.\<close>

primrec accomplish :: "api_call list \<Rightarrow> cluster \<Rightarrow> cluster \<Rightarrow> bool" where
  "accomplish [] v v' \<longleftrightarrow> v' = v"
| "accomplish (c # cs) v v' \<longleftrightarrow> (\<exists>u. callEffect c v u \<and> accomplish cs u v')"

lemma accomplish_append:
  "accomplish (cs @ ds) v v' \<longleftrightarrow> (\<exists>u. accomplish cs v u \<and> accomplish ds u v')"
  by (induction cs arbitrary: v) auto

text \<open>A program that makes the calls of a list, all accepted, and returns.\<close>

definition performs :: "('w \<Rightarrow> cluster) \<Rightarrow> ('w \<Rightarrow> cluster) \<Rightarrow> (cluster \<Rightarrow> bool) \<Rightarrow> api_call list \<Rightarrow> ('w, unit) io \<Rightarrow> bool" where
  "performs store seen V cs m \<longleftrightarrow>
     (\<forall>s. V (seen (wld s)) \<longrightarrow>
        (\<exists>t. m s = (Ok (), t) \<and> V (seen (wld t)) \<and> calls t = calls s @ map (\<lambda>c. (c, True)) cs \<and>
             accomplish cs (store (wld s)) (store (wld t))))"

lemma performsE:
  assumes "performs store seen V cs m" and "V (seen (wld s))"
  obtains t where "m s = (Ok (), t)" "V (seen (wld t))" "calls t = calls s @ map (\<lambda>c. (c, True)) cs"
    "accomplish cs (store (wld s)) (store (wld t))"
  using assms unfolding performs_def by blast

lemma performs_ret: "performs store seen V [] (ret ())"
  by (simp add: performs_def ret_def)

lemma performs_foldM:
  fixes store seen :: "'w \<Rightarrow> cluster"
  shows "(\<And>x. x \<in> set xs \<Longrightarrow> performs store seen V (f x) (g x)) \<Longrightarrow>
    performs store seen V (concat (map f xs)) (foldM (\<lambda>_. g) () xs)"
proof (induction xs)
  case Nil
  then show ?case by (simp add: performs_ret)
next
  case (Cons x xs)
  show ?case
    unfolding performs_def
  proof (intro allI impI)
    fix s :: "('w, api_call) st"
    assume "V (seen (wld s))"
    with Cons.prems [of x] obtain t where t: "g x s = (Ok (), t)" "V (seen (wld t))"
      "calls t = calls s @ map (\<lambda>c. (c, True)) (f x)" "accomplish (f x) (store (wld s)) (store (wld t))"
      by (auto elim: performsE)
    from Cons obtain u where "foldM (\<lambda>_. g) () xs t = (Ok (), u)" "V (seen (wld u))"
      "calls u = calls t @ map (\<lambda>c. (c, True)) (concat (map f xs))"
      "accomplish (concat (map f xs)) (store (wld t)) (store (wld u))"
      using t(2) by (auto elim: performsE)
    with t show "\<exists>u. foldM (\<lambda>_. g) () (x # xs) s = (Ok (), u) \<and> V (seen (wld u)) \<and>
        calls u = calls s @ map (\<lambda>c. (c, True)) (concat (map f (x # xs))) \<and>
        accomplish (concat (map f (x # xs))) (store (wld s)) (store (wld u))"
      by (intro exI [of _ u]) (auto simp: andThen_run(1) accomplish_append)
  qed
qed

context caching_api
begin

lemma performs_issue:
  assumes c: "requestCall c" and s: "sameSupply v (seen (wld s))"
  obtains t where "issue E c s = (Ok None, t)" "sameSupply v (seen (wld t))" "calls t = calls s @ [(c, True)]"
    "callEffect c (store (wld s)) (store (wld t))"
proof -
  obtain w where w: "apply_call E c (wld s) = (None, w)" using accepts_all [of c "wld s"] by (metis prod.collapse)
  with accepted have "callEffect c (store (wld s)) (store w)" by blast
  moreover have "sameSupply v (seen w)" using sameSupply_trans [OF s requests_only [OF c w]] .
  ultimately show thesis using w that by (simp add: issue_def writeOp_def)
qed

lemma performs_size:
  assumes "n \<in> req_Name ` set (cl_requests v)"
  shows "performs store seen (sameSupply v) [PatchRequestSize n cnt] (PatchComposabilityRequestSize E n cnt)"
  unfolding performs_def
proof (intro allI impI)
  fix s :: "('w, api_call) st"
  assume s: "sameSupply v (seen (wld s))"
  with assms have "n \<in> req_Name ` set (cl_requests (seen (wld s)))" by (auto simp: sameSupply_def)
  with get_seen obtain q where q: "getComposabilityRequest E n (wld s) = (Inr q, wld s)" by blast
  from performs_issue [OF _ s, of "PatchRequestSize n cnt"]
  obtain t where t: "issue E (PatchRequestSize n cnt) s = (Ok None, t)" "sameSupply v (seen (wld t))"
    "calls t = calls s @ [(PatchRequestSize n cnt, True)]"
    "callEffect (PatchRequestSize n cnt) (store (wld s)) (store (wld t))" by (auto simp del: callEffect.simps)
  have "sizeAttempt E n cnt s = (Ok None, t)"
    by (simp add: sizeAttempt_def andThen_def wrapErr_def readOp_Inr [of "getComposabilityRequest E n", OF q] patchOnce_def t(1) ret_def)
  then have "PatchComposabilityRequestSize E n cnt s = (Ok (), t)"
    by (simp add: PatchComposabilityRequestSize_def maxRetries_def numeral_2_eq_2 andThen_def ret_def)
  with t show "\<exists>t. PatchComposabilityRequestSize E n cnt s = (Ok (), t) \<and> sameSupply v (seen (wld t)) \<and>
      calls t = calls s @ map (\<lambda>c. (c, True)) [PatchRequestSize n cnt] \<and>
      accomplish [PatchRequestSize n cnt] (store (wld s)) (store (wld t))"
    by (simp del: callEffect.simps)
qed

lemma performs_create:
  "performs store seen (sameSupply v) [CreateRequest ''composability-'' ty model cnt n]
     (createNewComposabilityRequestCR E cnt ty model n)"
  unfolding performs_def
proof (intro allI impI)
  fix s :: "('w, api_call) st"
  let ?c = "CreateRequest ''composability-'' ty model cnt n"
  assume s: "sameSupply v (seen (wld s))"
  from performs_issue [OF _ s, of ?c]
  obtain t where "issue E ?c s = (Ok None, t)" "sameSupply v (seen (wld t))" "calls t = calls s @ [(?c, True)]"
    "callEffect ?c (store (wld s)) (store (wld t))" by (auto simp del: callEffect.simps)
  then show "\<exists>t. createNewComposabilityRequestCR E cnt ty model n s = (Ok (), t) \<and> sameSupply v (seen (wld t)) \<and>
      calls t = calls s @ map (\<lambda>c. (c, True)) [?c] \<and> accomplish [?c] (store (wld s)) (store (wld t))"
    by (simp add: createNewComposabilityRequestCR_def andThen_def ret_def del: callEffect.simps)
qed

text \<open>One device: the plan, unless the count is above the maximum.\<close>

lemma performs_handleDevice:
  assumes stamps: "\<And>x. x \<in> set (cl_resources v) \<Longrightarrow> keepsDevice (ni_Name node) x \<Longrightarrow> lastUse E (sp_LabelPrefix spec) x \<noteq> None"
    and limit: "configuredCount (cl_claims v) (cl_resources v) infos slices (di_CDIModelName device) (ni_Name node)
      \<le> fst (GetModelLimit node (di_CDIModelName device))"
  shows "performs store seen (sameSupply v) (plannedCalls E v r node infos slices spec device)
    (handleDevice E r node infos slices spec (cl_requests v) device)"
  unfolding performs_def
proof (intro allI impI)
  fix s :: "('w, api_call) st"
  assume s: "sameSupply v (seen (wld s))"
  let ?m = "di_CDIModelName device" and ?n = "ni_Name node" and ?lp = "sp_LabelPrefix spec" and ?d = "r_DeviceNoRemoval r"
  let ?find = "find (\<lambda>q. req_Model q = ?m \<and> req_TargetNode q = ?n) (cl_requests v)"
  let ?wanted = "wantedCount v node infos slices device" and ?recent = "recentCount E v ?n ?lp ?d"
  let ?Q = "\<lambda>cs m. \<exists>t. m s = (Ok (), t) \<and> sameSupply v (seen (wld t)) \<and> calls t = calls s @ map (\<lambda>c. (c, True)) cs \<and>
      accomplish cs (store (wld s)) (store (wld t))"
  have still: "cl_claims (seen (wld s)) = cl_claims v" "cl_resources (seen (wld s)) = cl_resources v"
    "fst (clock E (wld s)) = cl_time v" using s by (simp_all add: sameSupply_def clock_seen)
  have count: "GetConfiguredDeviceCount E ?m ?n infos slices s =
      (Ok (configuredCount (cl_claims v) (cl_resources v) infos slices ?m ?n), s)"
    by (simp add: GetConfiguredDeviceCount_run still)
  have next_size: "getNextSize E ?wanted ?n ?lp ?d s = (Ok (max ?wanted ?recent), s)"
    using getNextSize_run [of s ?n ?lp ?wanted ?d] stamps by (simp add: still recentCount_def)
  have size: "?Q [PatchRequestSize (req_Name q) cnt] (PatchComposabilityRequestSize E (req_Name q) cnt)" if "?find = Some q" for q cnt
    using performs_size [of "req_Name q" v cnt] that s unfolding performs_def by (auto simp: find_Some_iff)
  have handle: "handleDevice E r node infos slices spec (cl_requests v) device s =
      (case ?find of
         Some q \<Rightarrow>
           if req_Size q < ?wanted then
             wrapErr ''failed to attach devices'' (PatchComposabilityRequestSize E (req_Name q) ?wanted) s
           else if ?wanted < req_Size q then
             wrapErr ''failed to detach devices'' (DynamicDetach E q ?wanted ?n ?lp ?d) s
           else (Ok (), s)
       | None \<Rightarrow>
           if 0 < ?wanted then
             wrapErr ''failed to attach devices''
               (createNewComposabilityRequestCR E ?wanted (GetDriverType (di_DriverName device)) ?m ?n) s
           else (Ok (), s))"
    using limit
    by (cases "GetModelLimit node ?m")
      (auto simp: handleDevice_def andThen_def wrapErr_def count DynamicAttach_def wantedCount_def Let_def ret_def max_def
        split: option.split)
  show "?Q (plannedCalls E v r node infos slices spec device) (handleDevice E r node infos slices spec (cl_requests v) device)"
  proof (cases ?find)
    case None
    have "?Q [CreateRequest ''composability-'' ty ?m cnt ?n] (createNewComposabilityRequestCR E cnt ty ?m ?n)" for ty cnt
      using performs_create [of v ty ?m cnt ?n] s unfolding performs_def by blast
    from this [of ?wanted "GetDriverType (di_DriverName device)"] None s show ?thesis
      by (auto simp: handle plannedCalls_def Let_def wrapErr_run)
  next
    case (Some q)
    have "DynamicDetach E q ?wanted ?n ?lp ?d s =
        (if max ?wanted ?recent < req_Size q
         then PatchComposabilityRequestSize E (req_Name q) (max ?wanted ?recent) s else (Ok (), s))"
      by (simp add: DynamicDetach_def andThen_def wrapErr_def next_size ret_def)
    with size [OF Some, of ?wanted] size [OF Some, of "max ?wanted ?recent"] Some s show ?thesis
      by (auto simp: handle plannedCalls_def Let_def wrapErr_run wrapErr_def)
  qed
qed

lemma handleDevices_planned:
  fixes s :: "('w, api_call) st"
  defines "v \<equiv> seen (wld s)"
  assumes "\<And>x. x \<in> set (cl_resources v) \<Longrightarrow> keepsDevice (ni_Name node) x \<Longrightarrow> lastUse E (sp_LabelPrefix spec) x \<noteq> None"
    and "\<And>device. device \<in> set (sp_DeviceInfos spec) \<Longrightarrow>
      configuredCount (cl_claims v) (cl_resources v) infos slices (di_CDIModelName device) (ni_Name node)
      \<le> fst (GetModelLimit node (di_CDIModelName device))"
  obtains t where "handleDevices E r node infos slices spec s = (Ok (), t)" "sameSupply v (seen (wld t))"
    "calls t = calls s @ map (\<lambda>c. (c, True)) (concat (map (plannedCalls E v r node infos slices spec) (sp_DeviceInfos spec)))"
    "accomplish (concat (map (plannedCalls E v r node infos slices spec) (sp_DeviceInfos spec))) (store (wld s)) (store (wld t))"
proof -
  have "performs store seen (sameSupply v) (concat (map (plannedCalls E v r node infos slices spec) (sp_DeviceInfos spec)))
      (foldM (\<lambda>_. handleDevice E r node infos slices spec (cl_requests v)) () (sp_DeviceInfos spec))"
    using assms(2,3) by (intro performs_foldM performs_handleDevice) auto
  moreover have "sameSupply v (seen (wld s))" by (simp add: sameSupply_refl v_def)
  moreover have "handleDevices E r node infos slices spec s =
      foldM (\<lambda>_. handleDevice E r node infos slices spec (cl_requests v)) () (sp_DeviceInfos spec) s"
    by (simp add: handleDevices_def andThen_def wrapErr_def read_requests v_def)
  ultimately show thesis using that by (auto simp: v_def elim: performsE)
qed

end

section \<open>What the plan leaves to do\<close>

text \<open>
  The first request for a model on a node, and when it needs no change: it is not below the wanted
  count and not above what a detach would leave; without a request nothing is wanted.
\<close>

definition requestFor :: "cluster \<Rightarrow> NodeInfo \<Rightarrow> string \<Rightarrow> ComposabilityRequest option" where
  "requestFor v node m = find (\<lambda>q. req_Model q = m \<and> req_TargetNode q = ni_Name node) (cl_requests v)"

lemma plannedCalls_request:
  assumes "requestFor v node (di_CDIModelName device) = Some q" and "c \<in> set (plannedCalls E v r node infos slices spec device)"
  shows "\<exists>sz. c = PatchRequestSize (req_Name q) sz"
  using assms by (auto simp: plannedCalls_def requestFor_def Let_def split: if_splits)

lemma distinct_changeBy:
  "map g (changeBy p f xs) = map g xs" if "\<And>x. g (f x) = g x"
  using that by (simp add: changeBy_def)

text \<open>The names of the requests before a plan are among those after it.\<close>

lemma plannedCalls_names:
  assumes "accomplish (plannedCalls E v r node infos slices spec device) w w'" and "distinct (map req_Name (cl_requests w'))"
  shows "distinct (map req_Name (cl_requests w))"
  using assms by (auto simp: plannedCalls_def Let_def distinct_changeBy split: if_splits option.splits)

lemma concat_plannedCalls_names:
  "accomplish (concat (map (plannedCalls E v r node infos slices spec) ds)) w w' \<Longrightarrow>
     distinct (map req_Name (cl_requests w')) \<Longrightarrow> distinct (map req_Name (cl_requests w))"
proof (induction ds arbitrary: w)
  case (Cons d ds)
  then show ?case by (auto simp: accomplish_append dest: plannedCalls_names)
qed simp

text \<open>A resized request is still the first one for its model; requests for other models are as before.\<close>

lemma find_resized:
  assumes "distinct (map req_Name qs)" and "find p qs = Some q" and "\<And>x. P (x\<lparr>req_Size := sz\<rparr>) = P x"
  shows "find P (changeBy (\<lambda>x. req_Name x = req_Name q) (\<lambda>x. x\<lparr>req_Size := sz\<rparr>) qs) =
    (if P q then map_option (\<lambda>x. if x = q then x\<lparr>req_Size := sz\<rparr> else x) (find P qs) else find P qs)"
proof -
  have q: "q \<in> set qs" using assms(2) by (auto simp: find_Some_iff)
  then have same: "x = q" if "x \<in> set qs" "req_Name x = req_Name q" for x
    using assms(1) that by (auto simp: distinct_map dest: inj_onD)
  have "find P (map (\<lambda>x. if x = q then x\<lparr>req_Size := sz\<rparr> else x) xs) =
      map_option (\<lambda>x. if x = q then x\<lparr>req_Size := sz\<rparr> else x) (find P xs)" for xs
    by (induction xs) (auto simp: assms(3))
  moreover have "changeBy (\<lambda>x. req_Name x = req_Name q) (\<lambda>x. x\<lparr>req_Size := sz\<rparr>) qs =
      map (\<lambda>x. if x = q then x\<lparr>req_Size := sz\<rparr> else x) qs"
    unfolding changeBy_def by (rule map_cong) (auto dest: same)
  moreover have "map_option (\<lambda>x. if x = q then x\<lparr>req_Size := sz\<rparr> else x) (find P qs) = find P qs" if "\<not> P q"
  proof (cases "find P qs")
    case (Some x)
    then have "P x" by (auto simp: find_Some_iff)
    with Some that show ?thesis by auto
  qed simp
  ultimately show ?thesis by simp
qed

lemma requestFor_resized:
  assumes "distinct (map req_Name (cl_requests w))" and "requestFor w node m = Some q"
  shows "requestFor (snd (memApply (PatchRequestSize (req_Name q) sz) w)) node m' =
    (if m' = m then Some (q\<lparr>req_Size := sz\<rparr>) else requestFor w node m')"
proof -
  have "req_Model q = m" "req_TargetNode q = ni_Name node" using assms(2) by (auto simp: requestFor_def find_Some_iff)
  with find_resized [OF assms(1) assms(2) [unfolded requestFor_def],
      of "\<lambda>q. req_Model q = m' \<and> req_TargetNode q = ni_Name node"] assms(2)
  show ?thesis by (auto simp: requestFor_def)
qed

lemma requestFor_created:
  assumes "callEffect (CreateRequest g ty m sz (ni_Name node)) w w'" and "requestFor w node m = None"
  shows "\<exists>q. requestFor w' node m = Some q \<and> req_Size q = sz"
    and "m' \<noteq> m \<Longrightarrow> requestFor w' node m' = requestFor w node m'"
  using assms by (auto simp: requestFor_def find_append split: option.split)

text \<open>After the calls for a device, its request is as wanted, and those for other models as before.\<close>

definition asWanted :: "'w env \<Rightarrow> cluster \<Rightarrow> ResourceMonitorReconciler \<Rightarrow> NodeInfo \<Rightarrow> ResourceClaimInfo list \<Rightarrow>
     ResourceSliceInfo list \<Rightarrow> ComposableDRASpec \<Rightarrow> DeviceInfo \<Rightarrow> ComposabilityRequest option \<Rightarrow> bool" where
  "asWanted E v r node infos slices spec device oq =
     (let wanted = wantedCount v node infos slices device;
          kept = max wanted (recentCount E v (ni_Name node) (sp_LabelPrefix spec) (r_DeviceNoRemoval r))
      in case oq of Some q \<Rightarrow> wanted \<le> req_Size q \<and> req_Size q \<le> kept | None \<Rightarrow> wanted \<le> 0)"

lemma plannedCalls_empty:
  "plannedCalls E v r node infos slices spec device = [] \<longleftrightarrow>
     asWanted E v r node infos slices spec device (requestFor v node (di_CDIModelName device))"
  by (auto simp: plannedCalls_def asWanted_def requestFor_def Let_def split: option.split)

lemma plannedCalls_settle:
  assumes "accomplish (plannedCalls E v r node infos slices spec device) w w'"
    and "requestFor w node (di_CDIModelName device) = requestFor v node (di_CDIModelName device)"
    and "distinct (map req_Name (cl_requests w'))"
  shows "asWanted E v r node infos slices spec device (requestFor w' node (di_CDIModelName device))"
    and "m \<noteq> di_CDIModelName device \<Longrightarrow> requestFor w' node m = requestFor w node m"
proof -
  let ?m = "di_CDIModelName device" and ?wanted = "wantedCount v node infos slices device"
  let ?kept = "max ?wanted (recentCount E v (ni_Name node) (sp_LabelPrefix spec) (r_DeviceNoRemoval r))"
  note names = plannedCalls_names [OF assms(1,3)]
  have resized: "requestFor w' node m' = (if m' = ?m then Some (q\<lparr>req_Size := sz\<rparr>) else requestFor w node m')"
    if "requestFor v node ?m = Some q" "plannedCalls E v r node infos slices spec device = [PatchRequestSize (req_Name q) sz]"
    for q sz m'
    using requestFor_resized [OF names, of node ?m q sz m'] assms(1,2) that by auto
  show "asWanted E v r node infos slices spec device (requestFor w' node ?m)"
  proof (cases "requestFor v node ?m")
    case None
    with assms(1,2) show ?thesis
      by (auto simp: plannedCalls_def asWanted_def requestFor_def Let_def simp del: callEffect.simps split: if_splits
          dest!: requestFor_created(1) [unfolded requestFor_def])
  next
    case (Some q)
    with assms(1,2) resized [OF Some, of ?wanted ?m] resized [OF Some, of ?kept ?m] show ?thesis
      by (auto simp: plannedCalls_def asWanted_def requestFor_def Let_def split: if_splits)
  qed
  show "requestFor w' node m = requestFor w node m" if m: "m \<noteq> ?m"
  proof (cases "requestFor v node ?m")
    case None
    with assms(1,2) m show ?thesis
      by (auto simp: plannedCalls_def Let_def requestFor_def simp del: callEffect.simps split: if_splits
          dest!: requestFor_created(2) [unfolded requestFor_def])
  next
    case (Some q)
    with assms(1,2) m resized [OF Some, of ?wanted m] resized [OF Some, of ?kept m] show ?thesis
      by (auto simp: plannedCalls_def requestFor_def Let_def split: if_splits)
  qed
qed

lemma plan_settles:
  assumes "accomplish (concat (map (plannedCalls E v r node infos slices spec) ds)) w w'"
    and "\<And>d. d \<in> set ds \<Longrightarrow> requestFor w node (di_CDIModelName d) = requestFor v node (di_CDIModelName d)"
    and "distinct (map req_Name (cl_requests w'))" and "distinct (map di_CDIModelName ds)"
  shows "(\<forall>d\<in>set ds. asWanted E v r node infos slices spec d (requestFor w' node (di_CDIModelName d))) \<and>
    (\<forall>m. m \<notin> di_CDIModelName ` set ds \<longrightarrow> requestFor w' node m = requestFor w node m)"
  using assms
proof (induction ds arbitrary: w)
  case (Cons d ds)
  let ?plan = "plannedCalls E v r node infos slices spec"
  from Cons.prems(1) obtain u where u: "accomplish (?plan d) w u" "accomplish (concat (map ?plan ds)) u w'"
    by (auto simp: accomplish_append)
  note settled = plannedCalls_settle [OF u(1) Cons.prems(2) concat_plannedCalls_names [OF u(2) Cons.prems(3)]]
  have "(\<forall>d\<in>set ds. asWanted E v r node infos slices spec d (requestFor w' node (di_CDIModelName d))) \<and>
    (\<forall>m. m \<notin> di_CDIModelName ` set ds \<longrightarrow> requestFor w' node m = requestFor u node m)"
  proof (rule Cons.IH [OF u(2) _ Cons.prems(3)])
    fix x
    assume x: "x \<in> set ds"
    with Cons.prems(4) have "di_CDIModelName x \<noteq> di_CDIModelName d" by (auto simp: image_iff)
    with settled(2) Cons.prems(2) x show "requestFor u node (di_CDIModelName x) = requestFor v node (di_CDIModelName x)" by simp
  qed (use Cons.prems(4) in simp)
  with settled Cons.prems(4) show ?case by auto
qed simp

section \<open>The requests of a node\<close>

text \<open>A node that waits for three devices, with a request that is too large for one of the models.\<close>

definition waitingInfos :: "ResourceClaimInfo list" where
  "waitingInfos = [sampleInfo 0 ''c1'' 5 [''A40'', ''H100'', ''H100'']]"

definition idleRequest :: cluster where
  "idleRequest = sampleCluster [] []
     [\<lparr>req_Name = ''q1'', req_Type = ''gpu'', req_Model = ''A40'', req_Size = 4, req_TargetNode = ''n1''\<rparr>]"

lemma idle_request_hypotheses:
  "\<forall>x\<in>set (cl_resources idleRequest).
     keepsDevice (ni_Name sampleNode) x \<longrightarrow> lastUse (memEnv []) (sp_LabelPrefix sampleSpec) x \<noteq> None"
  "\<forall>device\<in>set (sp_DeviceInfos sampleSpec).
     configuredCount (cl_claims idleRequest) (cl_resources idleRequest) waitingInfos []
       (di_CDIModelName device) (ni_Name sampleNode) \<le> fst (GetModelLimit sampleNode (di_CDIModelName device))"
proof -
  show "\<forall>x\<in>set (cl_resources idleRequest).
     keepsDevice (ni_Name sampleNode) x \<longrightarrow> lastUse (memEnv []) (sp_LabelPrefix sampleSpec) x \<noteq> None"
    by (simp add: idleRequest_def sampleCluster_def)
  have "list_all (\<lambda>device. configuredCount (cl_claims idleRequest) (cl_resources idleRequest) waitingInfos []
      (di_CDIModelName device) (ni_Name sampleNode) \<le> fst (GetModelLimit sampleNode (di_CDIModelName device)))
    (sp_DeviceInfos sampleSpec)" by code_simp
  then show "\<forall>device\<in>set (sp_DeviceInfos sampleSpec).
     configuredCount (cl_claims idleRequest) (cl_resources idleRequest) waitingInfos []
       (di_CDIModelName device) (ni_Name sampleNode) \<le> fst (GetModelLimit sampleNode (di_CDIModelName device))"
    by (simp add: list_all_iff)
qed

text \<open>
  Property C9. What \<open>handleDevices\<close> asks for is a function of what its client shows. With a client and
  server of this kind (reads are answered from a cache that may lag behind, every call is accepted, the
  time does not advance), when every online or attaching resource of the node has a readable last-used
  time and no configured count is above its maximum, \<open>handleDevices\<close> returns, and its calls are those of the
  plan, device by device. The plan is made of the cluster that the cache shows at the start.
\<close>

theorem device_requests_as_planned:
  assumes "caching_api E store seen"
    and "\<forall>x\<in>set (cl_resources (seen (wld s))).
      keepsDevice (ni_Name node) x \<longrightarrow> lastUse E (sp_LabelPrefix spec) x \<noteq> None"
    and "\<forall>device\<in>set (sp_DeviceInfos spec).
      configuredCount (cl_claims (seen (wld s))) (cl_resources (seen (wld s))) infos slices (di_CDIModelName device) (ni_Name node)
      \<le> fst (GetModelLimit node (di_CDIModelName device))"
  shows "fst (handleDevices E r node infos slices spec s) = Ok () \<and>
    calls (snd (handleDevices E r node infos slices spec s)) = calls s @
      map (\<lambda>c. (c, True)) (concat (map (plannedCalls E (seen (wld s)) r node infos slices spec) (sp_DeviceInfos spec)))"
  using caching_api.handleDevices_planned [OF assms(1), of s node spec infos slices r] assms(2,3) by (metis fst_conv snd_conv)

theorem device_requests_as_planned_witness:
  "map fst (calls (snd (handleDevices (memEnv []) \<lparr>r_ScanInterval = 60, r_DeviceNoRemoval = 10, r_DeviceNoAllocation = 60\<rparr>
     sampleNode waitingInfos [] sampleSpec \<lparr>wld = idleRequest, calls = []\<rparr>))) =
   [PatchRequestSize ''q1'' 1, CreateRequest ''composability-'' ''gpu'' ''H100'' 2 ''n1'']"
proof -
  let ?r = "\<lparr>r_ScanInterval = 60, r_DeviceNoRemoval = 10, r_DeviceNoAllocation = 60\<rparr>"
  have plan: "concat (map (plannedCalls (memEnv []) idleRequest ?r sampleNode waitingInfos [] sampleSpec) (sp_DeviceInfos sampleSpec)) =
    [PatchRequestSize ''q1'' 1, CreateRequest ''composability-'' ''gpu'' ''H100'' 2 ''n1'']" by code_simp
  from device_requests_as_planned [OF mem_caching.caching_api_axioms, where s = "\<lparr>wld = idleRequest, calls = []\<rparr>"
      and node = sampleNode and spec = sampleSpec and infos = waitingInfos and slices = "[]" and r = ?r] idle_request_hypotheses
  have "calls (snd (handleDevices (memEnv []) ?r sampleNode waitingInfos [] sampleSpec \<lparr>wld = idleRequest, calls = []\<rparr>)) =
    map (\<lambda>c. (c, True)) (concat (map (plannedCalls (memEnv []) idleRequest ?r sampleNode waitingInfos [] sampleSpec)
      (sp_DeviceInfos sampleSpec)))" by simp
  then show ?thesis unfolding plan by simp
qed

text \<open>
  Property C10. Requests settle. In a state \<open>s\<close> as in C9, with unique model names in the configuration and
  a cache that shows the stored requests, let \<open>handleDevices\<close> lead to a state \<open>t\<close> with unique request names.
  In every later state \<open>u\<close> in which the cache has caught up with the requests of \<open>t\<close> and shows the same
  claims, resources and time as in \<open>s\<close>, \<open>handleDevices\<close> with the same claims, slices and node makes no
  call: the controller does not change sizes back and forth. (Before the cache has caught up it may
  create a request again.)
\<close>

theorem device_requests_settle:
  assumes api: "caching_api E store seen"
    and stamps: "\<forall>x\<in>set (cl_resources (seen (wld s))).
      keepsDevice (ni_Name node) x \<longrightarrow> lastUse E (sp_LabelPrefix spec) x \<noteq> None"
    and limit: "\<forall>device\<in>set (sp_DeviceInfos spec).
      configuredCount (cl_claims (seen (wld s))) (cl_resources (seen (wld s))) infos slices (di_CDIModelName device) (ni_Name node)
      \<le> fst (GetModelLimit node (di_CDIModelName device))"
    and models: "distinct (map di_CDIModelName (sp_DeviceInfos spec))"
    and fresh: "cl_requests (seen (wld s)) = cl_requests (store (wld s))"
    and run: "handleDevices E r node infos slices spec s = (res, t)"
    and names: "distinct (map req_Name (cl_requests (store (wld t))))"
    and caught_up: "cl_requests (seen (wld u)) = cl_requests (store (wld t))"
    and same: "cl_claims (seen (wld u)) = cl_claims (seen (wld s))" "cl_resources (seen (wld u)) = cl_resources (seen (wld s))"
      "cl_time (seen (wld u)) = cl_time (seen (wld s))"
  shows "calls (snd (handleDevices E r node infos slices spec u)) = calls u"
proof -
  let ?v = "seen (wld s)" and ?v' = "seen (wld u)"
  have t: "accomplish (concat (map (plannedCalls E ?v r node infos slices spec) (sp_DeviceInfos spec))) (store (wld s)) (store (wld t))"
    using caching_api.handleDevices_planned [OF api, of s node spec infos slices r] stamps limit run by auto
  have start: "requestFor (store (wld s)) node m = requestFor ?v node m" for m by (simp add: requestFor_def fresh)
  have seen: "requestFor ?v' node m = requestFor (store (wld t)) node m" for m by (simp add: requestFor_def caught_up)
  have empty: "plannedCalls E ?v' r node infos slices spec d = []" if "d \<in> set (sp_DeviceInfos spec)" for d
    using plan_settles [OF t start names models] that
    by (auto simp: plannedCalls_empty asWanted_def wantedCount_def recentCount_def same seen)
  obtain u' where "handleDevices E r node infos slices spec u = (Ok (), u')"
    "calls u' = calls u @ map (\<lambda>c. (c, True)) (concat (map (plannedCalls E ?v' r node infos slices spec) (sp_DeviceInfos spec)))"
    using caching_api.handleDevices_planned [OF api, of u node spec infos slices r] stamps limit unfolding same by metis
  with empty show ?thesis by simp
qed

theorem device_requests_settle_witness:
  "(let E = laggingEnv []; r = \<lparr>r_ScanInterval = 60, r_DeviceNoRemoval = 10, r_DeviceNoAllocation = 60\<rparr>;
        t = snd (handleDevices E r sampleNode waitingInfos [] sampleSpec \<lparr>wld = (idleRequest, idleRequest), calls = []\<rparr>);
        u = \<lparr>wld = (fst (wld t), fst (wld t)), calls = calls t\<rparr>
    in calls (snd (handleDevices E r sampleNode waitingInfos [] sampleSpec u)) =
         [(PatchRequestSize ''q1'' 1, True), (CreateRequest ''composability-'' ''gpu'' ''H100'' 2 ''n1'', True)])"
proof -
  let ?E = "laggingEnv []" and ?r = "\<lparr>r_ScanInterval = 60, r_DeviceNoRemoval = 10, r_DeviceNoAllocation = 60\<rparr>"
  let ?s = "\<lparr>wld = (idleRequest, idleRequest), calls = []\<rparr>"
  let ?t = "snd (handleDevices ?E ?r sampleNode waitingInfos [] sampleSpec ?s)"
  let ?u = "\<lparr>wld = (fst (wld ?t), fst (wld ?t)), calls = calls ?t\<rparr>"
  have stamps: "\<forall>x\<in>set (cl_resources (snd (wld ?s))).
      keepsDevice (ni_Name sampleNode) x \<longrightarrow> lastUse ?E (sp_LabelPrefix sampleSpec) x \<noteq> None"
    by (simp add: idleRequest_def sampleCluster_def)
  have limit: "\<forall>device\<in>set (sp_DeviceInfos sampleSpec).
      configuredCount (cl_claims (snd (wld ?s))) (cl_resources (snd (wld ?s))) waitingInfos []
        (di_CDIModelName device) (ni_Name sampleNode) \<le> fst (GetModelLimit sampleNode (di_CDIModelName device))"
    using idle_request_hypotheses(2) by simp
  have models: "distinct (map di_CDIModelName (sp_DeviceInfos sampleSpec))" by code_simp
  have names: "distinct (map req_Name (cl_requests (fst (wld ?t))))" by code_simp
  have "length (cl_resources (fst (wld ?t))) = 0" and now: "cl_time (fst (wld ?t)) = cl_time idleRequest"
    and claims: "cl_claims (fst (wld ?t)) = cl_claims idleRequest" by code_simp+
  then have same: "cl_claims (snd (wld ?u)) = cl_claims (snd (wld ?s))"
    "cl_resources (snd (wld ?u)) = cl_resources (snd (wld ?s))" "cl_time (snd (wld ?u)) = cl_time (snd (wld ?s))"
    by (simp_all add: idleRequest_def sampleCluster_def del: split_paired_All)
  have calls: "calls ?t = [(PatchRequestSize ''q1'' 1, True), (CreateRequest ''composability-'' ''gpu'' ''H100'' 2 ''n1'', True)]"
    by code_simp
  have "calls (snd (handleDevices ?E ?r sampleNode waitingInfos [] sampleSpec ?u)) = calls ?u"
    by (rule device_requests_settle [OF lagging.caching_api_axioms stamps limit models _ surjective_pairing names _ same]) simp_all
  then show ?thesis unfolding Let_def by (simp only: st.simps calls)
qed

end
