(* ===== verification/Spec2Isabelle.thy ===== *)
theory Spec2Isabelle
  imports Scaling
begin

text \<open>
  \<^bold>\<open>A verification of the dynamic device scaler\<close>

  The program is a Kubernetes controller. Pods ask for devices (GPUs in a fabric) with ResourceClaims;
  the scheduler allocates fabric devices whose binding conditions are open; the controller notices
  such claims, asks the composable resource operator to attach devices to the node (by the size of a
  ComposabilityRequest), tells the scheduler through conditions in the claim's status that a device is
  there (\<open>FabricDeviceReschedule\<close>) or that it will not come (\<open>FabricDeviceFailed\<close>), shrinks requests
  whose devices have been idle, and labels nodes with the devices they may still get.

  \<^bold>\<open>Theories and sources\<close>

  \<^item> \<open>Prelude\<close>: errors, outcomes (a value, an error, a panic), programs as functions from a state to an
    outcome and a state, and the program logics \<open>does\<close> (calls and results in any world) and \<open>under\<close>
    (results in a world that keeps a property).
  \<^item> \<open>GoStd\<close>: what the code uses of Go: \<open>strconv.Atoi\<close> with its 64-bit range, UTF-8 decoding of
    \<open>range\<close> over strings, \<open>time.Time\<close> with the saturating \<open>Sub\<close>, \<open>sort.Slice\<close> (not stable: any order of
    equal elements), iteration over maps in any order, and the regular expression for fabric pools.
  \<^item> \<open>Types\<close>: the structs of \<open>src/internal/types/\<close>, the fields that are read of Kubernetes and operator objects,
    the mutating API calls as a datatype, and the environment.
  \<^item> \<open>Cluster\<close>: what a property may assume of the API server, as locales, and an in-memory server.
  \<^item> \<open>Samples\<close>: a small cluster on which witnesses evaluate the definitions.
  \<^item> \<open>InfoUtils\<close>: \<open>src/internal/utils/info_utils.go\<close>, the collection of claims, slices, nodes and configuration.
  \<^item> \<open>PatchUtils\<close>: \<open>src/internal/utils/patch_utils.go\<close>, patches that are retried on conflicts, and node labels.
  \<^item> \<open>DeviceUtils\<close>: \<open>src/internal/utils/device_utils.go\<close>, counting, attaching and detaching devices.
  \<^item> \<open>RescheduleUtils\<close>: \<open>src/internal/utils/reschedule_utils.go\<close>, the failed pass, the reschedule pass, limits
    and coexistence of models; \<open>Notifications\<close> compares the passes with specifications.
  \<^item> \<open>Controller\<close>: \<open>src/internal/controller/resourcemonitor_controller.go\<close>, \<open>Reconcile\<close> and what it calls.
  \<^item> \<open>Setup\<close>: \<open>src/cmd/main.go\<close>, the settings that it reads and the calls that set up and start the manager,
    with \<open>SetupWithManager\<close> of the controller.
  \<^item> \<open>Run\<close>: the cluster after a reconciliation, and runs of reconciliations among other changes.
  \<^item> \<open>Progress\<close>: a reconciliation completes on a server that answers and accepts.
  \<^item> \<open>Recollection\<close>: the next collection reads the claims as the nodes' passes have left them in memory.
  \<^item> \<open>NodeLabels\<close>: the labels of all nodes after a reconciliation, by the lists that it has read.
  \<^item> \<open>Scaling\<close>: the requests of a node as a plan made of what a cache shows, and why a run after the cache
    has caught up has nothing to do.

  Definitions have the names of the functions they translate. A function with a long loop body has one
  definition per loop body, in the order of the code (\<open>RescheduleFailedNotification\<close> uses \<open>failedClaim\<close> for
  a claim, \<open>failedDevices\<close> and \<open>failedDevice\<close> for its devices, \<open>limitStep\<close> for a model).

  \<^bold>\<open>State and effects\<close>

  A program (\<open>io\<close>) works on a world of any type and a list of the mutating calls so far, each with whether the
  server accepted it. The record \<open>env\<close> gives the reads, the effect of calls, the clock, the order of
  map iteration, YAML decoding, RFC 3339 times and the Unicode classes beyond ASCII; all of these are
  parameters, and properties hold for all of them unless they name hypotheses. Every read may fail and
  may change the world (others act at the same time). A failing program keeps the calls it has made.
  Error returns and panics are values; a panic (an empty list of values in a node selector, a device
  attribute without string value) ends the reconciliation.

  Go slices of claims are copied between functions, but the copies share the arrays of their devices.
  The code relies on it: marks that a node's pass makes in its copies are seen in the collected claims.
  The field \<open>rci_arr\<close> is the identity of a claim's device array, and \<open>shareDevices\<close> writes the devices
  back into the collected claims.

  No definition needs fuel. All recursion is structural but for UTF-8 decoding, which has a measure, and the
  retry loop runs over \<open>maxRetries\<close>. Counts are \<open>int\<close>: they are lengths of lists or parsed 64-bit
  integers; the one product that could overflow is taken modulo \<open>2 ^ 64\<close> and shown not to.

  \<^bold>\<open>Interfaces\<close>

  \<^item> \<open>slice_order\<close> (a comparison that \<open>sort.Slice\<close> can sort by), interpreted by both orders of \<open>sortByTime\<close>.
  \<^item> \<open>retry_attempt\<close> (one attempt of a patch), interpreted by the attempts of the four patch functions; it
    gives each of them the trace of its calls.
  \<^item> \<open>claim_pass\<close> (a pass that marks claims one by one), interpreted by both passes.
  \<^item> \<open>snapshot_api\<close>, \<open>quiet_api\<close>, \<open>frozen_api\<close> (lists return the present objects; marking claims does not
    change allocations and resources; nor the time), \<open>reading_api\<close>, \<open>server_api\<close> (reads change nothing;
    accepted calls have their effect, rejected ones none) \<open>willing_api\<close> (reads of existing objects are
    answered, calls are accepted), \<open>faithful_api\<close> (reads of claims and slices return what is stored),
    \<open>listing_api\<close> (so do lists of claims, resources and requests) and \<open>caching_api\<close> (reads are answered from
    a cache that may lag behind the store, and time stands still). The in-memory server \<open>memEnv\<close>
    interprets all of them; \<open>laggingEnv\<close>, whose cache shows no effect while the program runs, is a second
    interpretation of \<open>caching_api\<close>. The client of the manager reads from a cache, so a locale in which
    lists return the present objects describes a cache that is up to date; properties that need it name it.

  \<^bold>\<open>What is shown\<close>

  \<^item> The passes: a claim that is \<open>Preparing\<close> after the failed pass coexists with everything on its node and is
    within the limits; the reschedule pass notifies exactly the claims that idle devices can serve; both only
    mark claims and write what belongs to them.
  \<^item> The controller: a reconciliation makes only calls of its own kind, changes only its part of the cluster,
    keeps request sizes within limits and never negative in any run, and completes on a willing server.
  \<^item> Consecutive runs: the marks in memory and the conditions in the cluster agree for the next
    collection; the labels of all nodes are, at the end, those that the lists read for each node allow,
    although later nodes change requests and labels and the lists may be out of date; and handling the
    requests again, once the cache has caught up, makes no calls.
  \<^item> The process: the manager is started only after every call before was accepted, with the checked settings.
  \<^item> Counting and detaching agree with reference counts, patches end after two attempts with a
    determined trace, conditions that are written are read back as the state that was meant, node
    labels are those that the installed devices allow.
  \<^item> The collection describes claims, slices, nodes and configuration as the objects say, for every
    order of map iteration, and reports each malformed input.
  \<^item> Behaviour that differs from the evident intention: a recently used device of another model
    blocks a detach; one idle device is promised to every claim that waits for it; claims of one name in two
    namespaces are not compared; status entries are matched by device name, whatever the driver and pool; a minimum above the maximum wins; the limit of a model
    that two configured devices share depends on the order of map iteration; a claim whose devices are in different
    states is read back differently than it was marked; upper-case device names pass the DNS label check.

  \<^bold>\<open>Not modelled\<close>

  What controller-runtime does when it is called (the client, its cache, watches, the queue of requests,
  leader election, health checks and signals) and the parsing of flags are parameters: the model of \<open>main\<close>
  has the calls, their order and arguments, and what the program does with their errors. Of the rest of
  \<open>main.go\<close>, \<open>init\<close> registers schemes and \<open>BindFlags\<close> adds flags after the flags were parsed. Logging has no
  effect. The watches only ask for a reconciliation, which does not depend on the object that changed.
  Marshalling of patches cannot fail for the maps that the code builds and is left out. The search in
  lines 94 to 106 of \<open>reschedule_utils.go\<close> has a result that the code discards. Error texts are kept as the
  prefix of the format string and the wrapped error. Tests, manifests and build files are not part of
  the controller.
\<close>

end
